theory Spec2Isabelle
  imports Main "HOL-Library.AList" "HOL-Library.List_Lexorder" "HOL-Library.Char_ord"
begin

section \<open>JavaScript values and the operations the program applies to them\<close>

text \<open>
  The documents of the prompt library reach the normalizer as whatever \<open>JSON.parse\<close>
  returned, cast unchecked to \<open>DbFile\<close>. A value is therefore modelled as it is at run
  time. \<open>Undefined\<close> is what reading an absent property gives. Numbers are restricted to
  the integers that \<open>String\<close> writes with all their digits (those below \<open>10^21\<close> in
  magnitude), and a string is a list of code units below 256 (the Latin-1 range), which
  is what \<open>char\<close> holds. An object is its list of own properties.
\<close>

datatype jsval =
    Undefined
  | Null
  | Bool bool
  | Num int
  | Str string
  | Arr "jsval list"
  | Obj "(string \<times> jsval) list"

text \<open>
  Exceptions: \<open>TypeError\<close> is raised by the engine (a property read of \<open>null\<close> or
  \<open>undefined\<close>, a call of something that is no function, an iteration over something not
  iterable); \<open>Error m\<close> is \<open>throw new Error(m)\<close> of the program.
\<close>

datatype exn = TypeError | Error string

fun truthy :: "jsval \<Rightarrow> bool" where
  "truthy Undefined = False"
| "truthy Null = False"
| "truthy (Bool b) = b"
| "truthy (Num n) = (n \<noteq> 0)"
| "truthy (Str s) = (s \<noteq> [])"
| "truthy (Arr xs) = True"
| "truthy (Obj kvs) = True"

text \<open>\<open>nullish v\<close> is the test of \<open>v ?? d\<close> and of \<open>v?.f\<close>.\<close>

fun nullish :: "jsval \<Rightarrow> bool" where
  "nullish Undefined = True"
| "nullish Null = True"
| "nullish v = False"

text \<open>
  \<open>get_prop v k\<close> is \<open>v.k\<close> for the property names the program reads (\<open>id\<close>, \<open>name\<close>,
  \<open>title\<close>, \<open>tags\<close>, ...): none of them is defined on a prototype of a parsed value, so
  only an object's own property gives something else than \<open>undefined\<close>.
\<close>

fun get_prop :: "jsval \<Rightarrow> string \<Rightarrow> exn + jsval" where
  "get_prop Undefined k = Inl TypeError"
| "get_prop Null k = Inl TypeError"
| "get_prop (Obj kvs) k = Inr (case map_of kvs k of None \<Rightarrow> Undefined | Some v \<Rightarrow> v)"
| "get_prop v k = Inr Undefined"

text \<open>\<open>opt_prop v k\<close> is \<open>v?.k\<close>.\<close>

definition opt_prop :: "jsval \<Rightarrow> string \<Rightarrow> jsval" where
  "opt_prop v k = (case get_prop v k of Inl e \<Rightarrow> Undefined | Inr x \<Rightarrow> x)"

text \<open>White space of \<open>String.prototype.trim\<close> among the code units below 256.\<close>

definition is_ws :: "char \<Rightarrow> bool" where
  "is_ws c = (c \<in> set [CHR 0x09, CHR 0x0A, CHR 0x0B, CHR 0x0C, CHR 0x0D, CHR 0x20, CHR 0xA0])"

definition js_trim :: "string \<Rightarrow> string" where
  "js_trim s = rev (dropWhile is_ws (rev (dropWhile is_ws s)))"

text \<open>\<open>trim_call v\<close> is \<open>v.trim()\<close>: only a string has the method.\<close>

fun trim_call :: "jsval \<Rightarrow> exn + string" where
  "trim_call (Str s) = Inr (js_trim s)"
| "trim_call v = Inl TypeError"

text \<open>
  \<open>iterate v\<close> is the sequence that \<open>[...v]\<close> and \<open>for (const x of v)\<close> run over:
  an array gives its elements, a string its characters, anything else is not iterable.
\<close>

fun iterate :: "jsval \<Rightarrow> exn + jsval list" where
  "iterate (Arr xs) = Inr xs"
| "iterate (Str s) = Inr (map (\<lambda>c. Str [c]) s)"
| "iterate v = Inl TypeError"

subsection \<open>\<open>Map\<close> and \<open>Set\<close>\<close>

text \<open>
  A \<open>Map\<close> with string keys is an association list in insertion order: \<open>set\<close> on a key
  already present replaces the value in place, on a new key appends the entry, which is
  \<open>AList.update\<close>; \<open>values()\<close> is \<open>map snd\<close>. A \<open>Set\<close> keeps the first occurrence of
  every element, in insertion order.
\<close>

definition map_has :: "('a \<times> 'b) list \<Rightarrow> 'a \<Rightarrow> bool" where
  "map_has m k = (k \<in> set (map fst m))"

definition map_set :: "'a \<Rightarrow> 'b \<Rightarrow> ('a \<times> 'b) list \<Rightarrow> ('a \<times> 'b) list" where
  "map_set k v m = AList.update k v m"

definition new_Map :: "('a \<times> 'b) list \<Rightarrow> ('a \<times> 'b) list" where
  "new_Map entries = fold (\<lambda>(k, v) m. map_set k v m) entries []"

definition set_add :: "'a \<Rightarrow> 'a list \<Rightarrow> 'a list" where
  "set_add x s = (if x \<in> set s then s else s @ [x])"

definition new_Set :: "'a list \<Rightarrow> 'a list" where
  "new_Set xs = fold set_add xs []"

subsection \<open>The clock and the id generator\<close>

text \<open>
  \<open>nowIso()\<close> and \<open>uuid()\<close> read the outside world. The world is the sequence of
  answers still to come from each; a call takes the next one.
\<close>

record world =
  clock :: "nat \<Rightarrow> string"
  ticks :: nat
  rng :: "nat \<Rightarrow> string"
  draws :: nat

definition nowIso :: "world \<Rightarrow> string \<times> world" where
  "nowIso w = (clock w (ticks w), w\<lparr>ticks := Suc (ticks w)\<rparr>)"

definition uuid :: "world \<Rightarrow> string \<times> world" where
  "uuid w = (rng w (draws w), w\<lparr>draws := Suc (draws w)\<rparr>)"

text \<open>
  What the program relies on: a timestamp is never the empty string, and a generated id is
  non-empty and has no white space at either end.
\<close>

definition world_ok :: "world \<Rightarrow> bool" where
  "world_ok w = ((\<forall>n. clock w n \<noteq> []) \<and> (\<forall>n. rng w n \<noteq> [] \<and> js_trim (rng w n) = rng w n))"

section \<open>The document model (App.tsx)\<close>

text \<open>
  The fields the normalizer copies without looking at their type (\<open>createdAt\<close>,
  \<open>updatedAt\<close>, \<open>lastUsedAt\<close>) hold a value; the others hold what the normalizer makes of
  them. \<open>id\<close> is written \<open>c_id\<close> and \<open>p_id\<close>.
\<close>

record Category =
  c_id :: string
  c_name :: string
  c_createdAt :: jsval

record Prompt =
  p_id :: string
  title :: string
  categoryId :: string
  content :: string
  tags :: "string list"
  favorite :: bool
  createdAt :: jsval
  updatedAt :: jsval
  lastUsedAt :: jsval

record DbFile =
  version :: int
  categories :: "Category list"
  prompts :: "Prompt list"

definition UNCATEGORIZED_ID :: string where
  "UNCATEGORIZED_ID = ''uncategorized''"

text \<open>A document held in memory, seen as the value it is when it is passed on.\<close>

definition category_value :: "Category \<Rightarrow> jsval" where
  "category_value c =
     Obj [(''id'', Str (c_id c)), (''name'', Str (c_name c)), (''createdAt'', c_createdAt c)]"

definition prompt_value :: "Prompt \<Rightarrow> jsval" where
  "prompt_value p =
     Obj [(''id'', Str (p_id p)), (''title'', Str (title p)), (''categoryId'', Str (categoryId p)),
          (''content'', Str (content p)), (''tags'', Arr (map Str (tags p))),
          (''favorite'', Bool (favorite p)), (''createdAt'', createdAt p),
          (''updatedAt'', updatedAt p), (''lastUsedAt'', lastUsedAt p)]"

definition db_value :: "DbFile \<Rightarrow> jsval" where
  "db_value d =
     Obj [(''version'', Num (version d)), (''categories'', Arr (map category_value (categories d))),
          (''prompts'', Arr (map prompt_value (prompts d)))]"

section \<open>The normalizer of the UI: \<open>normalizeDb\<close> (App.tsx)\<close>

text \<open>\<open>categories.some((c) => c.id === UNCATEGORIZED_ID)\<close>; it stops at the first hit.\<close>

fun some_uncategorized :: "jsval list \<Rightarrow> exn + bool" where
  "some_uncategorized [] = Inr False"
| "some_uncategorized (c # cs) =
     (case get_prop c ''id'' of
        Inl e \<Rightarrow> Inl e
      | Inr v \<Rightarrow> if v = Str UNCATEGORIZED_ID then Inr True else some_uncategorized cs)"

text \<open>\<open>x?.trim() || d\<close>\<close>

definition trimmed_or :: "jsval \<Rightarrow> string \<Rightarrow> exn + string" where
  "trimmed_or x d =
     (if nullish x then Inr d
      else case trim_call x of Inl e \<Rightarrow> Inl e | Inr s \<Rightarrow> Inr (if s = [] then d else s))"

text \<open>\<open>x || nowIso()\<close>\<close>

definition or_now :: "jsval \<Rightarrow> world \<Rightarrow> jsval \<times> world" where
  "or_now x w = (if truthy x then (x, w) else (case nowIso w of (t, w') \<Rightarrow> (Str t, w')))"

text \<open>\<open>(x.id ?? "").trim()\<close>\<close>

definition trimmed_id :: "jsval \<Rightarrow> exn + string" where
  "trimmed_id x =
     (case get_prop x ''id'' of
        Inl e \<Rightarrow> Inl e
      | Inr v \<Rightarrow> trim_call (if nullish v then Str [] else v))"

text \<open>The object stored for a category: \<open>{ id, name: c.name?.trim() || "Bez nazwy", createdAt: c.createdAt || nowIso() }\<close>.\<close>

definition normCategory :: "string \<Rightarrow> jsval \<Rightarrow> world \<Rightarrow> exn + (Category \<times> world)" where
  "normCategory i c w =
     (case get_prop c ''name'' of
        Inl e \<Rightarrow> Inl e
      | Inr nv \<Rightarrow>
     (case trimmed_or nv ''Bez nazwy'' of
        Inl e \<Rightarrow> Inl e
      | Inr n \<Rightarrow>
     (case get_prop c ''createdAt'' of
        Inl e \<Rightarrow> Inl e
      | Inr cv \<Rightarrow>
     (case or_now cv w of
        (t, w') \<Rightarrow> Inr (\<lparr>c_id = i, c_name = n, c_createdAt = t\<rparr>, w')))))"

fun categoryLoop ::
  "jsval list \<Rightarrow> (string \<times> Category) list \<Rightarrow> world \<Rightarrow> exn + ((string \<times> Category) list \<times> world)" where
  "categoryLoop [] m w = Inr (m, w)"
| "categoryLoop (c # cs) m w =
     (case trimmed_id c of
        Inl e \<Rightarrow> Inl e
      | Inr i \<Rightarrow>
          if i = [] \<or> map_has m i then categoryLoop cs m w
          else (case normCategory i c w of
                  Inl e \<Rightarrow> Inl e
                | Inr (k, w') \<Rightarrow> categoryLoop cs (map_set i k m) w'))"

text \<open>The category that stands for "no category", made when none is there.\<close>

definition uncategorized :: "world \<Rightarrow> Category \<times> world" where
  "uncategorized w =
     (case nowIso w of
        (t, w') \<Rightarrow> (\<lparr>c_id = UNCATEGORIZED_ID, c_name = ''Bez kategorii'', c_createdAt = Str t\<rparr>, w'))"

text \<open>\<open>(p.id ?? "").trim() || uuid()\<close>\<close>

definition prompt_id :: "jsval \<Rightarrow> world \<Rightarrow> exn + (string \<times> world)" where
  "prompt_id p w =
     (case trimmed_id p of
        Inl e \<Rightarrow> Inl e
      | Inr i \<Rightarrow> if i \<noteq> [] then Inr (i, w) else Inr (uuid w))"

text \<open>
  Tags: \<open>Array.from(new Set(ts.map((tag) => tag.trim()).filter(Boolean))).sort((a, b) =>
  a.localeCompare(b, "pl", { sensitivity: "base" }))\<close>. The collation of the locale is a
  parameter: \<open>ck\<close> gives the sort key of a string, and \<open>localeCompare\<close> compares the keys.
  \<open>Array.prototype.sort\<close> is stable, as \<open>sort_key\<close> is.
\<close>

definition normTags :: "(string \<Rightarrow> 'k::linorder) \<Rightarrow> string list \<Rightarrow> string list" where
  "normTags ck ts = sort_key ck (new_Set (filter (\<lambda>t. t \<noteq> []) (map js_trim ts)))"

fun trim_all :: "jsval list \<Rightarrow> exn + string list" where
  "trim_all [] = Inr []"
| "trim_all (t # ts) =
     (case trim_call t of
        Inl e \<Rightarrow> Inl e
      | Inr s \<Rightarrow> (case trim_all ts of Inl e \<Rightarrow> Inl e | Inr ss \<Rightarrow> Inr (s # ss)))"

text \<open>\<open>(p.tags ?? []).map((tag) => tag.trim())\<close>: only an array has \<open>map\<close>.\<close>

definition trimmed_tags :: "jsval \<Rightarrow> exn + string list" where
  "trimmed_tags tv =
     (if nullish tv then Inr []
      else case tv of Arr ts \<Rightarrow> trim_all ts | _ \<Rightarrow> Inl TypeError)"

text \<open>The object stored for a prompt (lines 132 to 146), \<open>has\<close> being \<open>categoryMap.has\<close>.\<close>

definition normPrompt ::
  "(string \<Rightarrow> 'k::linorder) \<Rightarrow> (string \<times> Category) list \<Rightarrow> string \<Rightarrow> jsval \<Rightarrow> world
     \<Rightarrow> exn + (Prompt \<times> world)" where
  "normPrompt ck categoryMap i p w =
     (case get_prop p ''tags'' of Inl e \<Rightarrow> Inl e | Inr tv \<Rightarrow>
     (case trimmed_tags tv of Inl e \<Rightarrow> Inl e | Inr ts \<Rightarrow>
     (case get_prop p ''title'' of Inl e \<Rightarrow> Inl e | Inr tiv \<Rightarrow>
     (case trimmed_or tiv ''Nowy prompt'' of Inl e \<Rightarrow> Inl e | Inr ti \<Rightarrow>
     (case get_prop p ''categoryId'' of Inl e \<Rightarrow> Inl e | Inr cv \<Rightarrow>
     (case get_prop p ''content'' of Inl e \<Rightarrow> Inl e | Inr cov \<Rightarrow>
     (case trimmed_or cov [] of Inl e \<Rightarrow> Inl e | Inr co \<Rightarrow>
     (case get_prop p ''favorite'' of Inl e \<Rightarrow> Inl e | Inr fv \<Rightarrow>
     (case get_prop p ''createdAt'' of Inl e \<Rightarrow> Inl e | Inr crv \<Rightarrow>
     (case get_prop p ''updatedAt'' of Inl e \<Rightarrow> Inl e | Inr upv \<Rightarrow>
     (case get_prop p ''lastUsedAt'' of Inl e \<Rightarrow> Inl e | Inr luv \<Rightarrow>
     (case or_now crv w of (cr, w1) \<Rightarrow>
     (case (if truthy upv then (upv, w1) else or_now crv w1) of (up, w2) \<Rightarrow>
        Inr (\<lparr>p_id = i, title = ti,
              categoryId = (case cv of
                              Str c \<Rightarrow> if map_has categoryMap c then c else UNCATEGORIZED_ID
                            | _ \<Rightarrow> UNCATEGORIZED_ID),
              content = co, tags = normTags ck ts, favorite = truthy fv,
              createdAt = cr, updatedAt = up,
              lastUsedAt = (if truthy luv then luv else Null)\<rparr>, w2))))))))))))))"

fun promptLoop ::
  "(string \<Rightarrow> 'k::linorder) \<Rightarrow> (string \<times> Category) list \<Rightarrow> jsval list
     \<Rightarrow> (string \<times> Prompt) list \<Rightarrow> world \<Rightarrow> exn + ((string \<times> Prompt) list \<times> world)" where
  "promptLoop ck categoryMap [] m w = Inr (m, w)"
| "promptLoop ck categoryMap (p # ps) m w =
     (case prompt_id p w of
        Inl e \<Rightarrow> Inl e
      | Inr (i, w1) \<Rightarrow>
          if map_has m i then promptLoop ck categoryMap ps m w1
          else (case normPrompt ck categoryMap i p w1 of
                  Inl e \<Rightarrow> Inl e
                | Inr (q, w2) \<Rightarrow> promptLoop ck categoryMap ps (map_set i q m) w2))"

text \<open>Lines 104 to 106: the reserved category is appended to the list when no entry has its id.\<close>

definition push_uncategorized :: "jsval list \<Rightarrow> world \<Rightarrow> exn + (jsval list \<times> world)" where
  "push_uncategorized cs w =
     (case some_uncategorized cs of
        Inl e \<Rightarrow> Inl e
      | Inr found \<Rightarrow>
          if found then Inr (cs, w)
          else (case uncategorized w of (u, w') \<Rightarrow> Inr (cs @ [category_value u], w')))"

text \<open>Lines 119 to 125: the reserved category is set in the map when the map has not got it.\<close>

definition ensure_uncategorized ::
  "(string \<times> Category) list \<Rightarrow> world \<Rightarrow> (string \<times> Category) list \<times> world" where
  "ensure_uncategorized m w =
     (if map_has m UNCATEGORIZED_ID then (m, w)
      else (case uncategorized w of (u, w') \<Rightarrow> (map_set UNCATEGORIZED_ID u m, w')))"

text \<open>Lines 103 to 125: from the input to the map of the categories.\<close>

definition categoryMapOf :: "world \<Rightarrow> jsval \<Rightarrow> exn + ((string \<times> Category) list \<times> world)" where
  "categoryMapOf w input =
     (case get_prop input ''categories'' of Inl e \<Rightarrow> Inl e | Inr cv \<Rightarrow>
     (case iterate (if nullish cv then Arr [] else cv) of Inl e \<Rightarrow> Inl e | Inr cs0 \<Rightarrow>
     (case push_uncategorized cs0 w of Inl e \<Rightarrow> Inl e | Inr (cs1, w1) \<Rightarrow>
     (case categoryLoop cs1 [] w1 of Inl e \<Rightarrow> Inl e | Inr (m0, w2) \<Rightarrow>
        Inr (ensure_uncategorized m0 w2)))))"

text \<open>Lines 127 to 147: the map of the prompts.\<close>

definition promptMapOf ::
  "(string \<Rightarrow> 'k::linorder) \<Rightarrow> (string \<times> Category) list \<Rightarrow> world \<Rightarrow> jsval
     \<Rightarrow> exn + ((string \<times> Prompt) list \<times> world)" where
  "promptMapOf ck categoryMap w input =
     (case get_prop input ''prompts'' of Inl e \<Rightarrow> Inl e | Inr pv \<Rightarrow>
     (case iterate (if nullish pv then Arr [] else pv) of Inl e \<Rightarrow> Inl e | Inr ps \<Rightarrow>
        promptLoop ck categoryMap ps [] w))"

definition normalizeDb :: "(string \<Rightarrow> 'k::linorder) \<Rightarrow> world \<Rightarrow> jsval \<Rightarrow> exn + (DbFile \<times> world)" where
  "normalizeDb ck w input =
     (case categoryMapOf w input of Inl e \<Rightarrow> Inl e | Inr (categoryMap, w1) \<Rightarrow>
     (case promptMapOf ck categoryMap w1 input of Inl e \<Rightarrow> Inl e | Inr (promptMap, w2) \<Rightarrow>
        Inr (\<lparr>version = 1, categories = map snd categoryMap, prompts = map snd promptMap\<rparr>,
             w2)))"

section \<open>The merge of an imported document: \<open>mergeImported\<close> (App.tsx)\<close>

text \<open>\<open>toLowerCase\<close> on the code units below 256: A to Z and the capital letters from U+00C0 to U+00DE, the multiplication sign apart.\<close>

definition upper_chars :: string where
  "upper_chars =
     ''ABCDEFGHIJKLMNOPQRSTUVWXYZ'' @
     [CHR 0xC0, CHR 0xC1, CHR 0xC2, CHR 0xC3, CHR 0xC4, CHR 0xC5, CHR 0xC6, CHR 0xC7,
      CHR 0xC8, CHR 0xC9, CHR 0xCA, CHR 0xCB, CHR 0xCC, CHR 0xCD, CHR 0xCE, CHR 0xCF,
      CHR 0xD0, CHR 0xD1, CHR 0xD2, CHR 0xD3, CHR 0xD4, CHR 0xD5, CHR 0xD6,
      CHR 0xD8, CHR 0xD9, CHR 0xDA, CHR 0xDB, CHR 0xDC, CHR 0xDD, CHR 0xDE]"

definition lower_chars :: string where
  "lower_chars =
     ''abcdefghijklmnopqrstuvwxyz'' @
     [CHR 0xE0, CHR 0xE1, CHR 0xE2, CHR 0xE3, CHR 0xE4, CHR 0xE5, CHR 0xE6, CHR 0xE7,
      CHR 0xE8, CHR 0xE9, CHR 0xEA, CHR 0xEB, CHR 0xEC, CHR 0xED, CHR 0xEE, CHR 0xEF,
      CHR 0xF0, CHR 0xF1, CHR 0xF2, CHR 0xF3, CHR 0xF4, CHR 0xF5, CHR 0xF6,
      CHR 0xF8, CHR 0xF9, CHR 0xFA, CHR 0xFB, CHR 0xFC, CHR 0xFD, CHR 0xFE]"

definition lower_char :: "char \<Rightarrow> char" where
  "lower_char c = (case map_of (zip upper_chars lower_chars) c of Some l \<Rightarrow> l | None \<Rightarrow> c)"

definition js_toLowerCase :: "string \<Rightarrow> string" where
  "js_toLowerCase s = map lower_char s"

definition map_get :: "('a \<times> 'b) list \<Rightarrow> 'a \<Rightarrow> 'b option" where
  "map_get m k = map_of m k"

text \<open>\<open>x || uuid()\<close> on a string.\<close>

definition or_uuid :: "string \<Rightarrow> world \<Rightarrow> string \<times> world" where
  "or_uuid x w = (if x \<noteq> [] then (x, w) else uuid w)"

text \<open>
  The loop over the imported categories (lines 166 to 183). Its state is \<open>next.categories\<close>,
  \<open>categoryIdMap\<close> and \<open>categoryNameMap\<close>.
\<close>

type_synonym merge_state = "Category list \<times> (string \<times> string) list \<times> (string \<times> string) list"

fun mergeCategories :: "Category list \<Rightarrow> merge_state \<Rightarrow> world \<Rightarrow> merge_state \<times> world" where
  "mergeCategories [] s w = (s, w)"
| "mergeCategories (importedCategory # cs) (cats, categoryIdMap, categoryNameMap) w =
     (case or_uuid (c_id importedCategory) w of
        (importedId, w1) \<Rightarrow>
          if map_has categoryIdMap importedId
          then mergeCategories cs (cats, map_set importedId importedId categoryIdMap, categoryNameMap) w1
          else (case map_get categoryNameMap (js_toLowerCase (c_name importedCategory)) of
                  Some existingByName \<Rightarrow>
                    if existingByName \<noteq> []
                    then mergeCategories cs
                           (cats, map_set importedId existingByName categoryIdMap, categoryNameMap) w1
                    else mergeCategories cs
                           (cats @ [importedCategory], map_set importedId importedId categoryIdMap,
                            map_set (js_toLowerCase (c_name importedCategory)) importedId categoryNameMap) w1
                | None \<Rightarrow>
                    mergeCategories cs
                      (cats @ [importedCategory], map_set importedId importedId categoryIdMap,
                       map_set (js_toLowerCase (c_name importedCategory)) importedId categoryNameMap) w1))"

text \<open>The maps as they are after the loop and after \<open>categoryIdMap.set(UNCATEGORIZED_ID, UNCATEGORIZED_ID)\<close>.\<close>

definition mergedCategories :: "DbFile \<Rightarrow> DbFile \<Rightarrow> world \<Rightarrow> merge_state \<times> world" where
  "mergedCategories current imported w =
     (case mergeCategories (categories imported)
             (categories current,
              new_Map (map (\<lambda>c. (c_id c, c_id c)) (categories current)),
              new_Map (map (\<lambda>c. (js_toLowerCase (c_name c), c_id c)) (categories current))) w of
        ((cats, categoryIdMap, categoryNameMap), w1) \<Rightarrow>
          ((cats, map_set UNCATEGORIZED_ID UNCATEGORIZED_ID categoryIdMap, categoryNameMap), w1))"

text \<open>\<open>categoryIdMap.get(c) ?? UNCATEGORIZED_ID\<close>\<close>

definition resolveCategory :: "(string \<times> string) list \<Rightarrow> string \<Rightarrow> string" where
  "resolveCategory categoryIdMap c =
     (case map_get categoryIdMap c of Some r \<Rightarrow> r | None \<Rightarrow> UNCATEGORIZED_ID)"

text \<open>The loop over the imported prompts (lines 188 to 199).\<close>

fun mergePrompts ::
  "(string \<Rightarrow> 'k::linorder) \<Rightarrow> (string \<times> string) list \<Rightarrow> Prompt list \<Rightarrow> (string \<times> Prompt) list
     \<Rightarrow> world \<Rightarrow> (string \<times> Prompt) list \<times> world" where
  "mergePrompts ck categoryIdMap [] promptById w = (promptById, w)"
| "mergePrompts ck categoryIdMap (importedPrompt # ps) promptById w =
     (case or_uuid (p_id importedPrompt) w of
        (i, w1) \<Rightarrow>
          mergePrompts ck categoryIdMap ps
            (map_set i
               (importedPrompt\<lparr>p_id := i,
                  categoryId := resolveCategory categoryIdMap (categoryId importedPrompt),
                  tags := normTags ck (tags importedPrompt)\<rparr>)
               promptById) w1)"

definition mergeImported ::
  "(string \<Rightarrow> 'k::linorder) \<Rightarrow> world \<Rightarrow> DbFile \<Rightarrow> DbFile \<Rightarrow> exn + (DbFile \<times> world)" where
  "mergeImported ck w current imported =
     (case mergedCategories current imported w of
        ((cats, categoryIdMap, categoryNameMap), w1) \<Rightarrow>
     (case mergePrompts ck categoryIdMap (prompts imported)
             (new_Map (map (\<lambda>p. (p_id p, p)) (prompts current))) w1 of
        (promptById, w2) \<Rightarrow>
          normalizeDb ck w2 (db_value \<lparr>version = 1, categories = cats, prompts = map snd promptById\<rparr>)))"

text \<open>The id map with which the imported prompts are resolved.\<close>

definition categoryIdMapOf :: "DbFile \<Rightarrow> DbFile \<Rightarrow> world \<Rightarrow> (string \<times> string) list" where
  "categoryIdMapOf current imported w = fst (snd (fst (mergedCategories current imported w)))"

section \<open>The library controller: \<open>useLibrary\<close> (App.tsx)\<close>

text \<open>
  The state of the hook. A setter of React returns to its caller whatever it was given:
  \<open>setDb\<close> with an updater queues the updater, React applies it to the current document
  when it renders the component next, and an exception of the updater is raised by that
  render, outside every \<open>try\<close> of the code that called \<open>setDb\<close>. The document is replaced
  only when the updater returns; \<open>renderError\<close> is the exception with which the render
  fails, no error boundary being installed. The asynchronous steps (clipboard, storage)
  run without another mutation in between. The clipboard is a parameter: \<open>writeText s\<close>
  tells whether writing \<open>s\<close> succeeds.
  Message texts are written without their diacritics; no operation looks inside one, and
  the text of an engine exception is abbreviated to the exception's name.
\<close>

record Library =
  loading :: bool
  backupPending :: bool
  db :: DbFile
  error :: "string option"
  toast :: "string option"
  renderError :: "exn option"

record PromptDraft =
  d_id :: "string option"
  d_title :: string
  d_categoryId :: string
  d_content :: string
  d_tags :: "string list"
  d_favorite :: bool

type_synonym mutator = "world \<Rightarrow> DbFile \<Rightarrow> exn + (DbFile \<times> world)"

text \<open>
  An action that may throw to its caller after it has changed the state: the outcome is the
  exception, if any, with the state and the world as they are then.
\<close>

type_synonym action = "Library \<Rightarrow> world \<Rightarrow> exn option \<times> Library \<times> world"

fun message :: "exn \<Rightarrow> string" where
  "message (Error m) = m"
| "message TypeError = ''TypeError''"

text \<open>
  \<open>commit\<close>, with the render that follows it. The four setters are called in turn and all
  return: the error is cleared, the updater queued, the backup flag set and the toast
  shown. The first component of the outcome is the exception of the updater, that is, of
  the render, if any; it is no exception of the call.
\<close>

definition commit ::
  "(string \<Rightarrow> 'k::linorder) \<Rightarrow> mutator \<Rightarrow> string \<Rightarrow> Library \<Rightarrow> world \<Rightarrow> exn option \<times> Library \<times> world" where
  "commit ck mutator toastMessage st w =
     (let st1 = st\<lparr>error := None\<rparr>;
          st2 = st1\<lparr>backupPending := True,
                    toast := (if toastMessage \<noteq> [] then Some toastMessage else toast st1)\<rparr>
      in case mutator w (db st1) of
           Inl e \<Rightarrow> (Some e, st2\<lparr>renderError := Some e\<rparr>, w)
         | Inr (d, w1) \<Rightarrow>
             (case normalizeDb ck w1 (db_value d) of
                Inl e \<Rightarrow> (Some e, st2\<lparr>renderError := Some e\<rparr>, w1)
              | Inr (d', w2) \<Rightarrow>
                  (None,
                   st1\<lparr>db := d', backupPending := True,
                       toast := (if toastMessage \<noteq> [] then Some toastMessage else toast st1)\<rparr>,
                   w2)))"

text \<open>The call of \<open>commit\<close> as the code around it sees it: it returns.\<close>

definition commit_call :: "(string \<Rightarrow> 'k::linorder) \<Rightarrow> mutator \<Rightarrow> string \<Rightarrow> action" where
  "commit_call ck mutator toastMessage st w =
     (case commit ck mutator toastMessage st w of (r, st', w') \<Rightarrow> (None, st', w'))"

definition withValidation :: "action \<Rightarrow> Library \<Rightarrow> world \<Rightarrow> Library \<times> world" where
  "withValidation act st w =
     (case act st w of
        (None, st', w') \<Rightarrow> (st', w')
      | (Some e, st', w') \<Rightarrow> (st'\<lparr>error := Some (message e)\<rparr>, w'))"

subsection \<open>\<open>upsertPrompt\<close>\<close>

definition upsert_mutator :: "(string \<Rightarrow> 'k::linorder) \<Rightarrow> PromptDraft \<Rightarrow> string \<Rightarrow> mutator" where
  "upsert_mutator ck draft promptId w prev =
     (case nowIso w of
        (now, w1) \<Rightarrow>
          (let cid = (if \<exists>c \<in> set (categories prev). c_id c = d_categoryId draft
                      then d_categoryId draft else UNCATEGORIZED_ID);
               ts = normTags ck (d_tags draft)
           in case find (\<lambda>p. p_id p = promptId) (prompts prev) of
                Some existing \<Rightarrow>
                  Inr (prev\<lparr>prompts :=
                         map (\<lambda>p. if p_id p = promptId
                                   then p\<lparr>title := js_trim (d_title draft), categoryId := cid,
                                          content := js_trim (d_content draft), tags := ts,
                                          favorite := d_favorite draft, updatedAt := Str now\<rparr>
                                   else p) (prompts prev)\<rparr>, w1)
              | None \<Rightarrow>
                  Inr (prev\<lparr>prompts :=
                         prompts prev @
                         [\<lparr>p_id = promptId, title = js_trim (d_title draft), categoryId = cid,
                           content = js_trim (d_content draft), tags = ts,
                           favorite = d_favorite draft, createdAt = Str now, updatedAt = Str now,
                           lastUsedAt = Null\<rparr>]\<rparr>, w1)))"

text \<open>
  The three checks come before \<open>withValidation\<close>: \<open>Inl e\<close> is the exception that reaches
  the caller, nothing of the state having been touched. Otherwise the prompt id is returned
  with the new state.
\<close>

definition upsertPrompt ::
  "(string \<Rightarrow> 'k::linorder) \<Rightarrow> PromptDraft \<Rightarrow> Library \<Rightarrow> world \<Rightarrow> exn + (string \<times> Library \<times> world)" where
  "upsertPrompt ck draft st w =
     (if js_trim (d_title draft) = [] then Inl (Error ''Pole title jest wymagane'')
      else if js_trim (d_categoryId draft) = [] then Inl (Error ''Pole categoryId jest wymagane'')
      else if js_trim (d_content draft) = [] then Inl (Error ''Pole content jest wymagane'')
      else (case or_uuid (case d_id draft of Some i \<Rightarrow> i | None \<Rightarrow> []) w of
              (promptId, w1) \<Rightarrow>
                (case withValidation (commit_call ck (upsert_mutator ck draft promptId) ''Zapisano'') st w1 of
                   (st', w2) \<Rightarrow> Inr (promptId, st', w2))))"

subsection \<open>\<open>deletePrompt\<close>, \<open>duplicatePrompt\<close>, \<open>copyPrompt\<close>\<close>

definition deletePrompt :: "(string \<Rightarrow> 'k::linorder) \<Rightarrow> string \<Rightarrow> Library \<Rightarrow> world \<Rightarrow> Library \<times> world" where
  "deletePrompt ck i st w =
     withValidation
       (commit_call ck (\<lambda>w prev. Inr (prev\<lparr>prompts := filter (\<lambda>p. p_id p \<noteq> i) (prompts prev)\<rparr>, w))
          ''Usunieto prompt'') st w"

definition duplicate_mutator :: "string \<Rightarrow> string \<Rightarrow> mutator" where
  "duplicate_mutator i copyId w prev =
     (case find (\<lambda>p. p_id p = i) (prompts prev) of
        None \<Rightarrow> Inl (Error ''Prompt nie istnieje'')
      | Some original \<Rightarrow>
          (case nowIso w of
             (now, w1) \<Rightarrow>
               Inr (prev\<lparr>prompts :=
                      prompts prev @
                      [original\<lparr>p_id := copyId, title := title original @ '' (kopia)'',
                                createdAt := Str now, updatedAt := Str now, lastUsedAt := Null\<rparr>]\<rparr>,
                    w1)))"

definition duplicatePrompt ::
  "(string \<Rightarrow> 'k::linorder) \<Rightarrow> string \<Rightarrow> Library \<Rightarrow> world \<Rightarrow> string \<times> Library \<times> world" where
  "duplicatePrompt ck i st w =
     (case uuid w of
        (copyId, w1) \<Rightarrow>
          (case withValidation (commit_call ck (duplicate_mutator i copyId) ''Zduplikowano'') st w1 of
             (st', w2) \<Rightarrow> (copyId, st', w2)))"

definition copy_mutator :: "string \<Rightarrow> mutator" where
  "copy_mutator i w prev =
     (case nowIso w of
        (now, w1) \<Rightarrow>
          Inr (prev\<lparr>prompts :=
                 map (\<lambda>p. if p_id p = i then p\<lparr>lastUsedAt := Str now, updatedAt := Str now\<rparr> else p)
                   (prompts prev)\<rparr>, w1))"

definition copyPrompt ::
  "(string \<Rightarrow> 'k::linorder) \<Rightarrow> (string \<Rightarrow> bool) \<Rightarrow> string \<Rightarrow> action" where
  "copyPrompt ck writeText i st w =
     (case find (\<lambda>p. p_id p = i) (prompts (db st)) of
        None \<Rightarrow> (None, st\<lparr>error := Some ''Prompt nie istnieje''\<rparr>, w)
      | Some prompt \<Rightarrow>
          if \<not> writeText (content prompt)
          then (None, st\<lparr>error := Some ''Nie udalo sie skopiowac do schowka''\<rparr>, w)
          else commit_call ck (copy_mutator i) ''Skopiowano'' st w)"

subsection \<open>\<open>createCategory\<close>, \<open>renameCategory\<close>, \<open>deleteCategory\<close>\<close>

definition create_mutator :: "string \<Rightarrow> mutator" where
  "create_mutator trimmed w prev =
     (if \<exists>c \<in> set (categories prev). js_toLowerCase (c_name c) = js_toLowerCase trimmed
      then Inl (Error ''Kategoria o tej nazwie juz istnieje'')
      else (case uuid w of
              (i, w1) \<Rightarrow>
                (case nowIso w1 of
                   (t, w2) \<Rightarrow>
                     Inr (prev\<lparr>categories :=
                            categories prev @ [\<lparr>c_id = i, c_name = trimmed, c_createdAt = Str t\<rparr>]\<rparr>,
                          w2))))"

definition createCategory :: "(string \<Rightarrow> 'k::linorder) \<Rightarrow> string \<Rightarrow> Library \<Rightarrow> world \<Rightarrow> Library \<times> world" where
  "createCategory ck name st w =
     withValidation
       (\<lambda>st w. let trimmed = js_trim name
               in if trimmed = [] then (Some (Error ''Nazwa kategorii jest wymagana''), st, w)
                  else commit_call ck (create_mutator trimmed) ''Dodano kategorie'' st w) st w"

definition rename_mutator :: "string \<Rightarrow> string \<Rightarrow> mutator" where
  "rename_mutator i trimmed w prev =
     (if \<exists>c \<in> set (categories prev).
           c_id c \<noteq> i \<and> js_toLowerCase (c_name c) = js_toLowerCase trimmed
      then Inl (Error ''Kategoria o tej nazwie juz istnieje'')
      else if \<not> (\<exists>c \<in> set (categories prev). c_id c = i)
      then Inl (Error ''Kategoria nie istnieje'')
      else Inr (prev\<lparr>categories :=
                  map (\<lambda>c. if c_id c = i then c\<lparr>c_name := trimmed\<rparr> else c) (categories prev)\<rparr>, w))"

definition renameCategory ::
  "(string \<Rightarrow> 'k::linorder) \<Rightarrow> string \<Rightarrow> string \<Rightarrow> Library \<Rightarrow> world \<Rightarrow> Library \<times> world" where
  "renameCategory ck i name st w =
     withValidation
       (\<lambda>st w. let trimmed = js_trim name
               in if trimmed = [] then (Some (Error ''Nazwa kategorii jest wymagana''), st, w)
                  else if i = UNCATEGORIZED_ID
                  then (Some (Error ''Nie mozna zmienic nazwy kategorii Bez kategorii''), st, w)
                  else commit_call ck (rename_mutator i trimmed) ''Zmieniono nazwe kategorii'' st w) st w"

text \<open>\<open>prev.prompts.map(...)\<close> of \<open>deleteCategory\<close>: every prompt moved reads the clock.\<close>

fun reassign :: "string \<Rightarrow> Prompt list \<Rightarrow> world \<Rightarrow> Prompt list \<times> world" where
  "reassign i [] w = ([], w)"
| "reassign i (p # ps) w =
     (if categoryId p = i
      then (case nowIso w of
              (t, w1) \<Rightarrow>
                (case reassign i ps w1 of
                   (qs, w2) \<Rightarrow> (p\<lparr>categoryId := UNCATEGORIZED_ID, updatedAt := Str t\<rparr> # qs, w2)))
      else (case reassign i ps w of (qs, w2) \<Rightarrow> (p # qs, w2)))"

definition delete_mutator :: "string \<Rightarrow> mutator" where
  "delete_mutator i w prev =
     (if \<not> (\<exists>c \<in> set (categories prev). c_id c = i) then Inl (Error ''Kategoria nie istnieje'')
      else (case reassign i (prompts prev) w of
              (ps, w1) \<Rightarrow>
                Inr (prev\<lparr>categories := filter (\<lambda>c. c_id c \<noteq> i) (categories prev), prompts := ps\<rparr>,
                     w1)))"

definition deleteCategory :: "(string \<Rightarrow> 'k::linorder) \<Rightarrow> string \<Rightarrow> Library \<Rightarrow> world \<Rightarrow> Library \<times> world" where
  "deleteCategory ck i st w =
     withValidation
       (\<lambda>st w. if i = UNCATEGORIZED_ID
               then (Some (Error ''Nie mozna usunac kategorii Bez kategorii''), st, w)
               else commit_call ck (delete_mutator i) ''Usunieto kategorie'' st w) st w"

subsection \<open>\<open>importJson\<close>\<close>

text \<open>\<open>JSON.parse\<close> is a parameter; \<open>importParsed\<close> is what follows it inside \<open>withValidation\<close>.\<close>

definition importParsed :: "(string \<Rightarrow> 'k::linorder) \<Rightarrow> jsval \<Rightarrow> action" where
  "importParsed ck parsed st w =
     (case normalizeDb ck w parsed of
        Inl e \<Rightarrow> (Some e, st, w)
      | Inr (normalizedImported, w1) \<Rightarrow>
          commit_call ck (\<lambda>w prev. mergeImported ck w prev normalizedImported) ''Zaimportowano dane''
            st w1)"

definition importJson ::
  "(string \<Rightarrow> 'k::linorder) \<Rightarrow> (string \<Rightarrow> exn + jsval) \<Rightarrow> string \<Rightarrow> Library \<Rightarrow> world \<Rightarrow> Library \<times> world" where
  "importJson ck parse raw st w =
     withValidation
       (\<lambda>st w. case parse raw of
                 Inl e \<Rightarrow> (Some e, st, w)
               | Inr parsed \<Rightarrow> importParsed ck parsed st w) st w"

subsection \<open>The operations that do not copy and do not import\<close>

text \<open>
  The mutators of the controller other than \<open>copyPrompt\<close> and \<open>importJson\<close>, and the state
  each leaves (for \<open>upsertPrompt\<close> that throws to its caller: the state it found).
\<close>

datatype operation =
    UpsertPrompt PromptDraft
  | DeletePrompt string
  | DuplicatePrompt string
  | CreateCategory string
  | RenameCategory string string
  | DeleteCategory string

fun state_after :: "(string \<Rightarrow> 'k::linorder) \<Rightarrow> operation \<Rightarrow> Library \<Rightarrow> world \<Rightarrow> Library" where
  "state_after ck (UpsertPrompt draft) st w =
     (case upsertPrompt ck draft st w of Inl e \<Rightarrow> st | Inr (i, st', w') \<Rightarrow> st')"
| "state_after ck (DeletePrompt i) st w = fst (deletePrompt ck i st w)"
| "state_after ck (DuplicatePrompt i) st w = fst (snd (duplicatePrompt ck i st w))"
| "state_after ck (CreateCategory name) st w = fst (createCategory ck name st w)"
| "state_after ck (RenameCategory i name) st w = fst (renameCategory ck i name st w)"
| "state_after ck (DeleteCategory i) st w = fst (deleteCategory ck i st w)"

text \<open>
  \<open>kept d0 d\<close>: every \<open>lastUsedAt\<close> of \<open>d\<close> that is not \<open>null\<close> is the \<open>lastUsedAt\<close> the prompt
  of that id has in \<open>d0\<close>.
\<close>

definition kept :: "DbFile \<Rightarrow> DbFile \<Rightarrow> bool" where
  "kept d0 d =
     (\<forall>q \<in> set (prompts d). lastUsedAt q \<noteq> Null \<longrightarrow>
        (\<exists>p \<in> set (prompts d0). p_id p = p_id q \<and> lastUsedAt p = lastUsedAt q))"

section \<open>The background worker (second writer of the store)\<close>

text \<open>
  The worker has its own \<open>normalizeDb\<close>, in plain JavaScript. It tests types where the
  UI's reads through; \<open>String(v)\<close> is \<open>js_String\<close>.
\<close>

fun digits :: "nat \<Rightarrow> string" where
  "digits n = (if n < 10 then [char_of (48 + n)] else digits (n div 10) @ [char_of (48 + n mod 10)])"

declare digits.simps [simp del]

text \<open>
  \<open>String(v)\<close>: an array joins its elements with commas, \<open>null\<close> and \<open>undefined\<close> among
  them giving nothing; an object gives \<open>[object Object]\<close>, unless it has a property
  \<open>toString\<close> of its own, which in a parsed value is no function: then no conversion to a
  primitive exists.
\<close>

fun js_String :: "jsval \<Rightarrow> exn + string" and js_join :: "jsval list \<Rightarrow> exn + string" where
  "js_String Undefined = Inr ''undefined''"
| "js_String Null = Inr ''null''"
| "js_String (Bool b) = Inr (if b then ''true'' else ''false'')"
| "js_String (Num n) = Inr (if n < 0 then CHR ''-'' # digits (nat (- n)) else digits (nat n))"
| "js_String (Str s) = Inr s"
| "js_String (Arr xs) = js_join xs"
| "js_String (Obj kvs) =
     (if map_has kvs ''toString'' then Inl TypeError else Inr ''[object Object]'')"
| "js_join [] = Inr []"
| "js_join (x # xs) =
     (case (if nullish x then Inr [] else js_String x) of
        Inl e \<Rightarrow> Inl e
      | Inr s \<Rightarrow>
          if xs = [] then Inr s
          else (case js_join xs of Inl e \<Rightarrow> Inl e | Inr r \<Rightarrow> Inr (s @ '','' @ r)))"

text \<open>\<open>typeof v === "string" && v ? v : d\<close>, and the same on the trimmed string.\<close>

definition string_or :: "jsval \<Rightarrow> string \<Rightarrow> string" where
  "string_or v d = (case v of Str s \<Rightarrow> if s \<noteq> [] then s else d | _ \<Rightarrow> d)"

definition trimmed_string_or :: "jsval \<Rightarrow> string \<Rightarrow> string" where
  "trimmed_string_or v d = (case v of Str s \<Rightarrow> if js_trim s \<noteq> [] then js_trim s else d | _ \<Rightarrow> d)"

text \<open>\<open>Array.isArray(v) ? v : []\<close>\<close>

definition array_or_empty :: "jsval \<Rightarrow> jsval list" where
  "array_or_empty v = (case v of Arr xs \<Rightarrow> xs | _ \<Rightarrow> [])"

definition bg_defaultDb :: "world \<Rightarrow> jsval \<times> world" where
  "bg_defaultDb w =
     (case uncategorized w of
        (u, w') \<Rightarrow>
          (Obj [(''version'', Num 1), (''categories'', Arr [category_value u]), (''prompts'', Arr [])],
           w'))"

text \<open>\<open>categories.some((cat) => cat && cat.id === UNCATEGORIZED_ID)\<close>\<close>

fun bg_some_uncategorized :: "jsval list \<Rightarrow> exn + bool" where
  "bg_some_uncategorized [] = Inr False"
| "bg_some_uncategorized (c # cs) =
     (if \<not> truthy c then bg_some_uncategorized cs
      else (case get_prop c ''id'' of
              Inl e \<Rightarrow> Inl e
            | Inr v \<Rightarrow> if v = Str UNCATEGORIZED_ID then Inr True else bg_some_uncategorized cs))"

fun bg_categoryLoop ::
  "jsval list \<Rightarrow> (string \<times> Category) list \<Rightarrow> world \<Rightarrow> (string \<times> Category) list \<times> world" where
  "bg_categoryLoop [] m w = (m, w)"
| "bg_categoryLoop (category # cs) m w =
     (let i = (case opt_prop category ''id'' of Str s \<Rightarrow> js_trim s | _ \<Rightarrow> [])
      in if i = [] \<or> map_has m i then bg_categoryLoop cs m w
         else (case (case opt_prop category ''createdAt'' of
                       Str s \<Rightarrow> if s \<noteq> [] then (s, w) else nowIso w
                     | _ \<Rightarrow> nowIso w) of
                 (t, w') \<Rightarrow>
                   bg_categoryLoop cs
                     (map_set i
                        \<lparr>c_id = i, c_name = trimmed_string_or (opt_prop category ''name'') ''Bez nazwy'',
                         c_createdAt = Str t\<rparr> m) w'))"

text \<open>\<open>tagsInput.map((tag) => String(tag).trim())\<close>\<close>

fun bg_trim_all :: "jsval list \<Rightarrow> exn + string list" where
  "bg_trim_all [] = Inr []"
| "bg_trim_all (t # ts) =
     (case js_String t of
        Inl e \<Rightarrow> Inl e
      | Inr s \<Rightarrow> (case bg_trim_all ts of Inl e \<Rightarrow> Inl e | Inr ss \<Rightarrow> Inr (js_trim s # ss)))"

text \<open>\<open>[...new Set(ts.filter(Boolean))].sort()\<close>: the default order, by code units.\<close>

definition bg_normTags :: "string list \<Rightarrow> string list" where
  "bg_normTags ts = sort (new_Set (filter (\<lambda>t. t \<noteq> []) ts))"

text \<open>\<open>typeof v === "string" && v ? v : nowIso()\<close>\<close>

definition bg_or_now :: "jsval \<Rightarrow> world \<Rightarrow> string \<times> world" where
  "bg_or_now v w = (case v of Str s \<Rightarrow> if s \<noteq> [] then (s, w) else nowIso w | _ \<Rightarrow> nowIso w)"

definition bg_normPrompt ::
  "(string \<times> Category) list \<Rightarrow> string \<Rightarrow> jsval \<Rightarrow> world \<Rightarrow> exn + (Prompt \<times> world)" where
  "bg_normPrompt categoryMap i prompt w =
     (case bg_trim_all (array_or_empty (opt_prop prompt ''tags'')) of
        Inl e \<Rightarrow> Inl e
      | Inr ts \<Rightarrow>
     (case bg_or_now (opt_prop prompt ''createdAt'') w of
        (cr, w1) \<Rightarrow>
     (case (case opt_prop prompt ''updatedAt'' of
              Str s \<Rightarrow> if s \<noteq> [] then (s, w1) else bg_or_now (opt_prop prompt ''createdAt'') w1
            | _ \<Rightarrow> bg_or_now (opt_prop prompt ''createdAt'') w1) of
        (up, w2) \<Rightarrow>
          Inr (\<lparr>p_id = i,
                title = trimmed_string_or (opt_prop prompt ''title'') ''Nowy prompt'',
                categoryId = (case opt_prop prompt ''categoryId'' of
                                Str c \<Rightarrow> if map_has categoryMap c then c else UNCATEGORIZED_ID
                              | _ \<Rightarrow> UNCATEGORIZED_ID),
                content = trimmed_string_or (opt_prop prompt ''content'') [],
                tags = bg_normTags ts,
                favorite = truthy (opt_prop prompt ''favorite''),
                createdAt = Str cr, updatedAt = Str up,
                lastUsedAt = (case opt_prop prompt ''lastUsedAt'' of
                                Str s \<Rightarrow> if s \<noteq> [] then Str s else Null
                              | _ \<Rightarrow> Null)\<rparr>, w2))))"

fun bg_promptLoop ::
  "(string \<times> Category) list \<Rightarrow> jsval list \<Rightarrow> (string \<times> Prompt) list \<Rightarrow> world
     \<Rightarrow> exn + ((string \<times> Prompt) list \<times> world)" where
  "bg_promptLoop categoryMap [] m w = Inr (m, w)"
| "bg_promptLoop categoryMap (prompt # ps) m w =
     (case (case opt_prop prompt ''id'' of
              Str s \<Rightarrow> if js_trim s \<noteq> [] then (js_trim s, w) else uuid w
            | _ \<Rightarrow> uuid w) of
        (i, w1) \<Rightarrow>
          if map_has m i then bg_promptLoop categoryMap ps m w1
          else (case bg_normPrompt categoryMap i prompt w1 of
                  Inl e \<Rightarrow> Inl e
                | Inr (q, w2) \<Rightarrow> bg_promptLoop categoryMap ps (map_set i q m) w2))"

definition bg_normalizeDb :: "world \<Rightarrow> jsval \<Rightarrow> exn + (DbFile \<times> world)" where
  "bg_normalizeDb w input =
     (case (case input of Obj kvs \<Rightarrow> (input, w) | Arr xs \<Rightarrow> (input, w) | _ \<Rightarrow> bg_defaultDb w) of
        (base, w0) \<Rightarrow>
     (case get_prop base ''categories'' of Inl e \<Rightarrow> Inl e | Inr cv \<Rightarrow>
     (case bg_some_uncategorized (array_or_empty cv) of Inl e \<Rightarrow> Inl e | Inr found \<Rightarrow>
     (case (if found then (array_or_empty cv, w0)
            else (case uncategorized w0 of (u, w') \<Rightarrow> (array_or_empty cv @ [category_value u], w'))) of
        (cs1, w1) \<Rightarrow>
     (case bg_categoryLoop cs1 [] w1 of
        (m0, w2) \<Rightarrow>
     (case ensure_uncategorized m0 w2 of
        (categoryMap, w3) \<Rightarrow>
     (case get_prop base ''prompts'' of Inl e \<Rightarrow> Inl e | Inr pv \<Rightarrow>
     (case bg_promptLoop categoryMap (array_or_empty pv) [] w3 of
        Inl e \<Rightarrow> Inl e
      | Inr (promptMap, w4) \<Rightarrow>
          Inr (\<lparr>version = 1, categories = map snd categoryMap, prompts = map snd promptMap\<rparr>,
               w4)))))))))"

text \<open>\<open>s.split(",")\<close>\<close>

fun js_split :: "char \<Rightarrow> string \<Rightarrow> string list" where
  "js_split sep [] = [[]]"
| "js_split sep (c # cs) =
     (if c = sep then [] # js_split sep cs
      else (case js_split sep cs of [] \<Rightarrow> [[c]] | x # xs \<Rightarrow> (c # x) # xs))"

text \<open>
  \<open>savePromptFromPage\<close>, the handler of \<open>SAVE_PROMPT_FROM_PAGE\<close>. \<open>stored\<close> is the document
  that \<open>getDb\<close> returned; the result is the document handed to \<open>saveDb\<close>.
\<close>

definition savePromptFromPage :: "world \<Rightarrow> jsval \<Rightarrow> DbFile \<Rightarrow> exn + (DbFile \<times> world)" where
  "savePromptFromPage w payload stored =
     (let title' = (case opt_prop payload ''title'' of Str s \<Rightarrow> js_trim s | _ \<Rightarrow> []);
          content' = (case opt_prop payload ''content'' of Str s \<Rightarrow> js_trim s | _ \<Rightarrow> []);
          tagsRaw = (case opt_prop payload ''tags'' of Str s \<Rightarrow> s | _ \<Rightarrow> [])
      in if title' = [] then Inl (Error ''Tytul jest wymagany'')
         else if content' = [] then Inl (Error ''Tresc promptu jest wymagana'')
         else (case nowIso w of
                 (now, w1) \<Rightarrow>
                   (case uuid w1 of
                      (i, w2) \<Rightarrow>
                        bg_normalizeDb w2
                          (db_value
                             (stored\<lparr>prompts :=
                                prompts stored @
                                [\<lparr>p_id = i, title = title', categoryId = UNCATEGORIZED_ID,
                                  content = content',
                                  tags = bg_normTags (map js_trim (js_split CHR '','' tagsRaw)),
                                  favorite = False, createdAt = Str now, updatedAt = Str now,
                                  lastUsedAt = Null\<rparr>]\<rparr>)))))"

section \<open>Canonical documents\<close>

text \<open>
  What the normalizer establishes. \<open>shaped\<close> holds of every document it returns;
  \<open>canonical\<close> adds what needs a sound clock and id generator: the ids of the prompts and
  the timestamps.
\<close>

definition tags_ok :: "(string \<Rightarrow> 'k::linorder) \<Rightarrow> string list \<Rightarrow> bool" where
  "tags_ok ck ts =
     (distinct ts \<and> (\<forall>t \<in> set ts. t \<noteq> [] \<and> js_trim t = t) \<and> sorted (map ck ts))"

definition category_shaped :: "Category \<Rightarrow> bool" where
  "category_shaped c =
     (c_id c \<noteq> [] \<and> js_trim (c_id c) = c_id c \<and> c_name c \<noteq> [] \<and> js_trim (c_name c) = c_name c)"

definition prompt_shaped :: "(string \<Rightarrow> 'k::linorder) \<Rightarrow> string set \<Rightarrow> Prompt \<Rightarrow> bool" where
  "prompt_shaped ck ids p =
     (title p \<noteq> [] \<and> js_trim (title p) = title p \<and> js_trim (content p) = content p \<and>
      categoryId p \<in> ids \<and> tags_ok ck (tags p) \<and>
      (truthy (lastUsedAt p) \<or> lastUsedAt p = Null))"

definition shaped :: "(string \<Rightarrow> 'k::linorder) \<Rightarrow> DbFile \<Rightarrow> bool" where
  "shaped ck d =
     (version d = 1 \<and> distinct (map c_id (categories d)) \<and>
      UNCATEGORIZED_ID \<in> set (map c_id (categories d)) \<and>
      (\<forall>c \<in> set (categories d). category_shaped c) \<and>
      distinct (map p_id (prompts d)) \<and>
      (\<forall>p \<in> set (prompts d). prompt_shaped ck (set (map c_id (categories d))) p))"

definition canonical :: "(string \<Rightarrow> 'k::linorder) \<Rightarrow> DbFile \<Rightarrow> bool" where
  "canonical ck d =
     (shaped ck d \<and>
      (\<forall>c \<in> set (categories d). truthy (c_createdAt c)) \<and>
      (\<forall>p \<in> set (prompts d).
         p_id p \<noteq> [] \<and> js_trim (p_id p) = p_id p \<and> truthy (createdAt p) \<and> truthy (updatedAt p)))"

text \<open>The same, on the maps the loops of the normalizer build.\<close>

definition cmap_inv :: "(string \<times> Category) list \<Rightarrow> bool" where
  "cmap_inv m = (distinct (map fst m) \<and> (\<forall>(k, c) \<in> set m. c_id c = k \<and> category_shaped c))"

definition cmap_stamped :: "(string \<times> Category) list \<Rightarrow> bool" where
  "cmap_stamped m = (\<forall>(k, c) \<in> set m. truthy (c_createdAt c))"

definition pmap_inv :: "(string \<Rightarrow> 'k::linorder) \<Rightarrow> string set \<Rightarrow> (string \<times> Prompt) list \<Rightarrow> bool" where
  "pmap_inv ck ids m =
     (distinct (map fst m) \<and> (\<forall>(k, p) \<in> set m. p_id p = k \<and> prompt_shaped ck ids p))"

definition pmap_stamped :: "(string \<times> Prompt) list \<Rightarrow> bool" where
  "pmap_stamped m =
     (\<forall>(k, p) \<in> set m. k \<noteq> [] \<and> js_trim k = k \<and> truthy (createdAt p) \<and> truthy (updatedAt p))"

text \<open>
  The state of the loop over the imported categories: the categories are well-formed with
  distinct ids, each has its id as a key of the id map, and both maps point to categories
  that are there.
\<close>

definition merge_inv :: "Category list \<Rightarrow> (string \<times> string) list \<Rightarrow> (string \<times> string) list \<Rightarrow> bool" where
  "merge_inv cats im nm =
     (distinct (map c_id cats) \<and>
      (\<forall>c \<in> set cats. category_shaped c \<and> truthy (c_createdAt c)) \<and>
      set (map c_id cats) \<subseteq> fst ` set im \<and>
      (\<forall>k v. map_of im k = Some v \<longrightarrow> v \<in> set (map c_id cats)) \<and>
      (\<forall>k v. map_of nm k = Some v \<longrightarrow> v \<in> set (map c_id cats)))"

section \<open>Sample data\<close>

text \<open>
  A collation that ignores the case of letters, a world whose clock stands still and whose
  generated ids are \<open>u\<close>, \<open>uu\<close>, ..., and a stored document in need of repair with the
  document the normalizer makes of it.
\<close>

definition ck_base :: "string \<Rightarrow> string" where
  "ck_base = js_toLowerCase"

definition w0 :: world where
  "w0 = \<lparr>clock = (\<lambda>n. ''2024-05-01T10:00:00.000Z''), ticks = 0,
         rng = (\<lambda>n. replicate (Suc n) CHR ''u''), draws = 0\<rparr>"

definition raw_doc :: jsval where
  "raw_doc =
     Obj [(''categories'',
           Arr [Obj [(''id'', Str '' c1 ''), (''name'', Str '' Work '')],
                Obj [(''id'', Str ''c1''), (''name'', Str ''Twin'')]]),
          (''prompts'',
           Arr [Obj [(''id'', Str ''p1''), (''title'', Str '' Hello ''), (''categoryId'', Str ''c1''),
                     (''content'', Str ''World ''), (''tags'', Arr [Str ''b '', Str ''A'', Str ''b'']),
                     (''favorite'', Num 1)],
                Obj [(''title'', Null), (''categoryId'', Str ''gone'')]])]"

definition norm_doc :: DbFile where
  "norm_doc =
     \<lparr>version = 1,
      categories =
        [\<lparr>c_id = ''c1'', c_name = ''Work'', c_createdAt = Str ''2024-05-01T10:00:00.000Z''\<rparr>,
         \<lparr>c_id = ''uncategorized'', c_name = ''Bez kategorii'',
          c_createdAt = Str ''2024-05-01T10:00:00.000Z''\<rparr>],
      prompts =
        [\<lparr>p_id = ''p1'', title = ''Hello'', categoryId = ''c1'', content = ''World'',
          tags = [''A'', ''b''], favorite = True, createdAt = Str ''2024-05-01T10:00:00.000Z'',
          updatedAt = Str ''2024-05-01T10:00:00.000Z'', lastUsedAt = Null\<rparr>,
         \<lparr>p_id = ''u'', title = ''Nowy prompt'', categoryId = ''uncategorized'', content = [],
          tags = [], favorite = False, createdAt = Str ''2024-05-01T10:00:00.000Z'',
          updatedAt = Str ''2024-05-01T10:00:00.000Z'', lastUsedAt = Null\<rparr>]\<rparr>"

text \<open>
  A library with two categories of its own and one prompt, and two documents to import:
  \<open>import_fresh\<close> brings a category \<open>work\<close> under an id the library has not got, and a
  prompt with the id of the library's prompt; \<open>import_clash\<close> brings a category \<open>work\<close>
  under the id of the library's category \<open>Other\<close>.
\<close>

definition stamp :: jsval where
  "stamp = Str ''2024-05-01T10:00:00.000Z''"

definition reserved :: Category where
  "reserved = \<lparr>c_id = ''uncategorized'', c_name = ''Bez kategorii'', c_createdAt = stamp\<rparr>"

definition lib_p1 :: Prompt where
  "lib_p1 = \<lparr>p_id = ''p1'', title = ''Hello'', categoryId = ''c1'', content = ''World'', tags = [],
             favorite = False, createdAt = stamp, updatedAt = stamp, lastUsedAt = Null\<rparr>"

definition work_c1 :: Category where
  "work_c1 = \<lparr>c_id = ''c1'', c_name = ''Work'', c_createdAt = stamp\<rparr>"

definition lib_doc :: DbFile where
  "lib_doc =
     \<lparr>version = 1,
      categories = [reserved, work_c1, \<lparr>c_id = ''c2'', c_name = ''Other'', c_createdAt = stamp\<rparr>],
      prompts = [lib_p1]\<rparr>"

definition work_x9 :: Category where
  "work_x9 = \<lparr>c_id = ''x9'', c_name = ''work'', c_createdAt = stamp\<rparr>"

definition fresh_p1 :: Prompt where
  "fresh_p1 = \<lparr>p_id = ''p1'', title = ''Hello again'', categoryId = ''x9'', content = ''Moon'',
               tags = [''A'', ''b''], favorite = True, createdAt = stamp, updatedAt = stamp,
               lastUsedAt = Str ''2024-04-01T08:00:00.000Z''\<rparr>"

definition import_fresh :: DbFile where
  "import_fresh = \<lparr>version = 1, categories = [reserved, work_x9], prompts = [fresh_p1]\<rparr>"

definition merged_fresh :: DbFile where
  "merged_fresh = lib_doc\<lparr>prompts := [fresh_p1\<lparr>categoryId := ''c1''\<rparr>]\<rparr>"

definition work_c2 :: Category where
  "work_c2 = \<lparr>c_id = ''c2'', c_name = ''work'', c_createdAt = stamp\<rparr>"

definition clash_p2 :: Prompt where
  "clash_p2 = \<lparr>p_id = ''p2'', title = ''Plan'', categoryId = ''c2'', content = ''Week'', tags = [],
               favorite = False, createdAt = stamp, updatedAt = stamp, lastUsedAt = Null\<rparr>"

definition import_clash :: DbFile where
  "import_clash = \<lparr>version = 1, categories = [reserved, work_c2], prompts = [clash_p2]\<rparr>"

definition merged_clash :: DbFile where
  "merged_clash = lib_doc\<lparr>prompts := [lib_p1, clash_p2]\<rparr>"

text \<open>The controller holding the library, and a parser that returns \<open>import_fresh\<close>.\<close>

definition st_lib :: Library where
  "st_lib = \<lparr>loading = False, backupPending = False, db = lib_doc, error = None, toast = None,
              renderError = None\<rparr>"

definition parse_fresh :: "string \<Rightarrow> exn + jsval" where
  "parse_fresh raw = Inr (db_value import_fresh)"

text \<open>
  A clipboard that takes every text and one that takes none; a draft with a blank title;
  the state after the category \<open>Home\<close> was created in the library.
\<close>

definition sink_ok :: "string \<Rightarrow> bool" where
  "sink_ok s = True"

definition sink_broken :: "string \<Rightarrow> bool" where
  "sink_broken s = False"

definition blank_draft :: PromptDraft where
  "blank_draft = \<lparr>d_id = None, d_title = ''  '', d_categoryId = ''uncategorized'',
                   d_content = ''World'', d_tags = [], d_favorite = False\<rparr>"

definition st_home :: Library where
  "st_home =
     st_lib\<lparr>db := lib_doc\<lparr>categories :=
                      categories lib_doc @ [\<lparr>c_id = ''u'', c_name = ''Home'', c_createdAt = stamp\<rparr>]\<rparr>,
            backupPending := True, toast := Some ''Dodano kategorie''\<rparr>"

text \<open>
  What the page widget sends, the document the worker stores for it in the library, and
  that document as the UI's normalizer returns it.
\<close>

definition page_payload :: jsval where
  "page_payload =
     Obj [(''title'', Str ''Greeting''), (''content'', Str ''Hello there''), (''tags'', Str ''a,B''),
          (''source'', Str ''chatgpt.com'')]"

definition saved_prompt :: Prompt where
  "saved_prompt = \<lparr>p_id = ''u'', title = ''Greeting'', categoryId = ''uncategorized'',
                   content = ''Hello there'', tags = [''B'', ''a''], favorite = False,
                   createdAt = stamp, updatedAt = stamp, lastUsedAt = Null\<rparr>"

definition saved_doc :: DbFile where
  "saved_doc = lib_doc\<lparr>prompts := [lib_p1, saved_prompt]\<rparr>"

definition reloaded_doc :: DbFile where
  "reloaded_doc = lib_doc\<lparr>prompts := [lib_p1, saved_prompt\<lparr>tags := [''a'', ''B'']\<rparr>]\<rparr>"

section \<open>Properties of the helpers\<close>

lemma hd_rev_dropWhile_rev:
  "dropWhile P (rev xs) \<noteq> [] \<Longrightarrow> hd (rev (dropWhile P (rev xs))) = hd xs"
  by (metis Nil_is_rev_conv dropWhile_eq_Nil_conv dropWhile_last hd_rev last_rev)

lemma js_trim_idem [simp]: "js_trim (js_trim s) = js_trim s"
proof -
  define t where "t = dropWhile is_ws s"
  define u where "u = dropWhile is_ws (rev t)"
  have 1: "dropWhile is_ws (rev u) = rev u"
  proof (cases "u = []")
    case True then show ?thesis by simp
  next
    case False
    then have "t \<noteq> []" by (auto simp: u_def)
    then have "\<not> is_ws (hd t)" unfolding t_def by (rule hd_dropWhile)
    moreover have "hd (rev u) = hd t"
      using False unfolding u_def by (rule hd_rev_dropWhile_rev)
    ultimately show ?thesis by (simp add: dropWhile_eq_self_iff)
  qed
  have "js_trim s = rev u" by (simp add: js_trim_def u_def t_def)
  moreover have "js_trim (rev u) = rev u"
    by (simp add: js_trim_def 1) (simp add: u_def)
  ultimately show ?thesis by simp
qed

lemma fold_set_add_set: "set (fold set_add xs acc) = set acc \<union> set xs"
  by (induction xs arbitrary: acc) (auto simp: set_add_def)

lemma fold_set_add_distinct: "distinct acc \<Longrightarrow> distinct (fold set_add xs acc)"
  by (induction xs arbitrary: acc) (auto simp: set_add_def)

lemma fold_set_add_id: "distinct (acc @ xs) \<Longrightarrow> fold set_add xs acc = acc @ xs"
  by (induction xs arbitrary: acc) (auto simp: set_add_def)

lemma set_new_Set [simp]: "set (new_Set xs) = set xs"
  by (simp add: new_Set_def fold_set_add_set)

lemma distinct_new_Set [simp]: "distinct (new_Set xs)"
  by (simp add: new_Set_def fold_set_add_distinct)

lemma new_Set_id: "distinct xs \<Longrightarrow> new_Set xs = xs"
  using fold_set_add_id [of "[]" xs] by (simp add: new_Set_def)

lemma tags_ok_normTags: "tags_ok ck (normTags ck ts)"
  by (auto simp: tags_ok_def normTags_def)

lemma normTags_id: "tags_ok ck ts \<Longrightarrow> normTags ck ts = ts"
proof -
  assume a: "tags_ok ck ts"
  have 1: "map js_trim ts = ts" using a by (intro map_idI) (simp add: tags_ok_def)
  have 2: "filter (\<lambda>t. t \<noteq> []) ts = ts" using a by (simp add: tags_ok_def)
  have 3: "new_Set ts = ts" using a by (simp add: tags_ok_def new_Set_id)
  have 4: "sort_key ck ts = ts" using a by (simp add: tags_ok_def sort_key_id_if_sorted)
  show ?thesis by (simp add: normTags_def 1 2 3 4)
qed

lemma map_has_set [simp]: "map_has (map_set k v m) k' \<longleftrightarrow> k' = k \<or> map_has m k'"
  by (auto simp: map_has_def map_set_def update_keys)

lemma map_has_Nil [simp]: "\<not> map_has [] k"
  by (simp add: map_has_def)

lemma map_set_new: "\<not> map_has m k \<Longrightarrow> map_set k v m = m @ [(k, v)]"
  unfolding map_set_def map_has_def by (induction m) auto


lemma set_map_set_new: "\<not> map_has m k \<Longrightarrow> set (map_set k v m) = insert (k, v) (set m)"
  by (simp add: map_set_new)

lemma distinct_map_set: "distinct (map fst m) \<Longrightarrow> distinct (map fst (map_set k v m))"
  by (simp add: map_set_def distinct_update)

lemma world_ok_nowIso: "nowIso w = (t, w') \<Longrightarrow> world_ok w \<Longrightarrow> t \<noteq> [] \<and> world_ok w'"
  by (auto simp: nowIso_def world_ok_def)

lemma world_ok_uuid: "uuid w = (i, w') \<Longrightarrow> world_ok w \<Longrightarrow> i \<noteq> [] \<and> js_trim i = i \<and> world_ok w'"
  by (auto simp: uuid_def world_ok_def)

lemma trim_call_trimmed: "trim_call v = Inr s \<Longrightarrow> js_trim s = s"
  by (cases v) auto

lemma trimmed_id_trimmed: "trimmed_id c = Inr i \<Longrightarrow> js_trim i = i"
  by (auto simp: trimmed_id_def split: sum.splits dest: trim_call_trimmed)

lemma trimmed_or_trimmed: "trimmed_or v d = Inr s \<Longrightarrow> js_trim d = d \<Longrightarrow> js_trim s = s"
  by (auto simp: trimmed_or_def split: sum.splits if_splits dest: trim_call_trimmed)

lemma trimmed_or_nonempty: "trimmed_or v d = Inr s \<Longrightarrow> d \<noteq> [] \<Longrightarrow> s \<noteq> []"
  by (auto simp: trimmed_or_def split: sum.splits if_splits)

lemma or_now_truthy: "or_now v w = (t, w') \<Longrightarrow> world_ok w \<Longrightarrow> truthy t \<and> world_ok w'"
  by (auto simp: or_now_def split: if_splits prod.splits dest: world_ok_nowIso)

lemma js_trim_literals [simp]:
  "js_trim ''Bez nazwy'' = ''Bez nazwy''" "js_trim ''Nowy prompt'' = ''Nowy prompt''"
  "js_trim ''Bez kategorii'' = ''Bez kategorii''" "js_trim ''uncategorized'' = ''uncategorized''"
  "js_trim [] = []"
  by (simp_all add: js_trim_def is_ws_def)

lemma normCategory_shaped:
  "normCategory i c w = Inr (k, w') \<Longrightarrow> i \<noteq> [] \<Longrightarrow> js_trim i = i \<Longrightarrow> c_id k = i \<and> category_shaped k"
  by (auto simp: normCategory_def category_shaped_def split: sum.splits prod.splits
      dest: trimmed_or_trimmed trimmed_or_nonempty)

lemma normCategory_stamped:
  "normCategory i c w = Inr (k, w') \<Longrightarrow> world_ok w \<Longrightarrow> truthy (c_createdAt k) \<and> world_ok w'"
  by (auto simp: normCategory_def split: sum.splits prod.splits dest: or_now_truthy)

lemma cmap_inv_set:
  "cmap_inv m \<Longrightarrow> \<not> map_has m i \<Longrightarrow> c_id k = i \<Longrightarrow> category_shaped k \<Longrightarrow> cmap_inv (map_set i k m)"
  by (auto simp: cmap_inv_def map_set_new map_has_def)

lemma categoryLoop_inv:
  "categoryLoop cs m w = Inr (m', w') \<Longrightarrow> cmap_inv m \<Longrightarrow> cmap_inv m'"
proof (induction cs arbitrary: m w)
  case Nil
  then show ?case by simp
next
  case (Cons c cs)
  then show ?case
    by (auto split: sum.splits if_splits prod.splits
        dest!: trimmed_id_trimmed normCategory_shaped intro!: cmap_inv_set)
qed


lemma categoryLoop_stamped:
  "categoryLoop cs m w = Inr (m', w') \<Longrightarrow> world_ok w \<Longrightarrow> cmap_stamped m
     \<Longrightarrow> cmap_stamped m' \<and> world_ok w'"
proof (induction cs arbitrary: m w)
  case Nil
  then show ?case by simp
next
  case (Cons c cs)
  show ?case
  proof (cases "trimmed_id c")
    case (Inl e)
    with Cons.prems show ?thesis by simp
  next
    case (Inr i)
    show ?thesis
    proof (cases "i = [] \<or> map_has m i")
      case True
      with Inr Cons show ?thesis by auto
    next
      case False
      with Inr Cons.prems obtain k w1 where
        n: "normCategory i c w = Inr (k, w1)" and r: "categoryLoop cs (map_set i k m) w1 = Inr (m', w')"
        by (auto split: sum.splits)
      from n Cons.prems have "truthy (c_createdAt k)" "world_ok w1"
        by (auto dest: normCategory_stamped)
      moreover from this False Cons.prems have "cmap_stamped (map_set i k m)"
        by (auto simp: cmap_stamped_def map_set_new)
      ultimately show ?thesis using r Cons.IH by blast
    qed
  qed
qed

lemma get_prop_opt: "get_prop p k = (if nullish p then Inl TypeError else Inr (opt_prop p k))"
  by (cases p) (simp_all add: opt_prop_def)

lemma normPrompt_Inr:
  assumes "normPrompt ck cm i p w = Inr (q, w')"
  obtains ts ti co cr up w1 where
    "trimmed_tags (opt_prop p ''tags'') = Inr ts"
    "trimmed_or (opt_prop p ''title'') ''Nowy prompt'' = Inr ti"
    "trimmed_or (opt_prop p ''content'') [] = Inr co"
    "or_now (opt_prop p ''createdAt'') w = (cr, w1)"
    "(if truthy (opt_prop p ''updatedAt'') then (opt_prop p ''updatedAt'', w1)
      else or_now (opt_prop p ''createdAt'') w1) = (up, w')"
    "q = \<lparr>p_id = i, title = ti,
          categoryId = (case opt_prop p ''categoryId'' of
                          Str c \<Rightarrow> if map_has cm c then c else UNCATEGORIZED_ID
                        | _ \<Rightarrow> UNCATEGORIZED_ID),
          content = co, tags = normTags ck ts, favorite = truthy (opt_prop p ''favorite''),
          createdAt = cr, updatedAt = up,
          lastUsedAt = (if truthy (opt_prop p ''lastUsedAt'') then opt_prop p ''lastUsedAt'' else Null)\<rparr>"
proof (cases "nullish p")
  case True
  with assms show ?thesis by (simp add: normPrompt_def get_prop_opt)
next
  case False
  with assms that show ?thesis
    by (simp add: normPrompt_def get_prop_opt split: sum.splits prod.splits)
qed

lemma categoryId_in:
  "map_has cm UNCATEGORIZED_ID \<Longrightarrow>
   (case v of Str c \<Rightarrow> if map_has cm c then c else UNCATEGORIZED_ID | _ \<Rightarrow> UNCATEGORIZED_ID)
     \<in> set (map fst cm)"
  by (cases v) (auto simp: map_has_def)

lemma normPrompt_shaped:
  assumes "normPrompt ck cm i p w = Inr (q, w')" and "map_has cm UNCATEGORIZED_ID"
  shows "p_id q = i \<and> prompt_shaped ck (set (map fst cm)) q"
proof -
  from assms(1) show ?thesis
  proof (rule normPrompt_Inr)
    fix ts ti co cr up w1
    assume "trimmed_or (opt_prop p ''title'') ''Nowy prompt'' = Inr ti"
      "trimmed_or (opt_prop p ''content'') [] = Inr co"
      and q: "q = \<lparr>p_id = i, title = ti,
          categoryId = (case opt_prop p ''categoryId'' of
                          Str c \<Rightarrow> if map_has cm c then c else UNCATEGORIZED_ID
                        | _ \<Rightarrow> UNCATEGORIZED_ID),
          content = co, tags = normTags ck ts, favorite = truthy (opt_prop p ''favorite''),
          createdAt = cr, updatedAt = up,
          lastUsedAt = (if truthy (opt_prop p ''lastUsedAt'') then opt_prop p ''lastUsedAt'' else Null)\<rparr>"
    then have "ti \<noteq> []" "js_trim ti = ti" "js_trim co = co"
      by (auto dest: trimmed_or_trimmed trimmed_or_nonempty)
    with q assms(2) show ?thesis
      using categoryId_in [OF assms(2), of "opt_prop p ''categoryId''"]
      by (simp add: prompt_shaped_def tags_ok_normTags)
  qed
qed

lemma normPrompt_stamped:
  assumes "normPrompt ck cm i p w = Inr (q, w')" and "world_ok w"
  shows "truthy (createdAt q) \<and> truthy (updatedAt q) \<and> world_ok w'"
proof -
  from assms(1) show ?thesis
  proof (rule normPrompt_Inr)
    fix ts ti co cr up w1
    assume c: "or_now (opt_prop p ''createdAt'') w = (cr, w1)"
      and u: "(if truthy (opt_prop p ''updatedAt'') then (opt_prop p ''updatedAt'', w1)
      else or_now (opt_prop p ''createdAt'') w1) = (up, w')"
      and q: "q = \<lparr>p_id = i, title = ti,
          categoryId = (case opt_prop p ''categoryId'' of
                          Str c \<Rightarrow> if map_has cm c then c else UNCATEGORIZED_ID
                        | _ \<Rightarrow> UNCATEGORIZED_ID),
          content = co, tags = normTags ck ts, favorite = truthy (opt_prop p ''favorite''),
          createdAt = cr, updatedAt = up,
          lastUsedAt = (if truthy (opt_prop p ''lastUsedAt'') then opt_prop p ''lastUsedAt'' else Null)\<rparr>"
    from c assms(2) have 1: "truthy cr" "world_ok w1" by (auto dest: or_now_truthy)
    with u have "truthy up \<and> world_ok w'" by (auto split: if_splits dest: or_now_truthy)
    with 1 q show ?thesis by simp
  qed
qed

lemma prompt_id_ok:
  "prompt_id p w = Inr (i, w') \<Longrightarrow> world_ok w \<Longrightarrow> i \<noteq> [] \<and> js_trim i = i \<and> world_ok w'"
  by (auto simp: prompt_id_def split: sum.splits if_splits dest: trimmed_id_trimmed world_ok_uuid)

lemma promptLoop_inv:
  "promptLoop ck cm ps m w = Inr (m', w') \<Longrightarrow> map_has cm UNCATEGORIZED_ID
     \<Longrightarrow> pmap_inv ck (set (map fst cm)) m \<Longrightarrow> pmap_inv ck (set (map fst cm)) m'"
proof (induction ps arbitrary: m w)
  case Nil
  then show ?case by simp
next
  case (Cons p ps)
  show ?case
  proof (cases "prompt_id p w")
    case (Inl e)
    with Cons.prems show ?thesis by simp
  next
    case (Inr r)
    obtain i w1 where r: "r = (i, w1)" by (cases r)
    show ?thesis
    proof (cases "map_has m i")
      case True
      with Inr r Cons show ?thesis by auto
    next
      case False
      with Inr r Cons.prems obtain q w2 where
        n: "normPrompt ck cm i p w1 = Inr (q, w2)"
        and l: "promptLoop ck cm ps (map_set i q m) w2 = Inr (m', w')"
        by (auto split: sum.splits)
      from n Cons.prems have "p_id q = i" "prompt_shaped ck (set (map fst cm)) q"
        by (auto dest: normPrompt_shaped)
      with False Cons.prems have "pmap_inv ck (set (map fst cm)) (map_set i q m)"
        by (auto simp: pmap_inv_def map_set_new map_has_def)
      with l Cons.IH Cons.prems show ?thesis by blast
    qed
  qed
qed

lemma promptLoop_stamped:
  "promptLoop ck cm ps m w = Inr (m', w') \<Longrightarrow> world_ok w \<Longrightarrow> pmap_stamped m
     \<Longrightarrow> pmap_stamped m' \<and> world_ok w'"
proof (induction ps arbitrary: m w)
  case Nil
  then show ?case by simp
next
  case (Cons p ps)
  show ?case
  proof (cases "prompt_id p w")
    case (Inl e)
    with Cons.prems show ?thesis by simp
  next
    case (Inr r)
    obtain i w1 where r: "r = (i, w1)" by (cases r)
    from Inr r Cons.prems have i: "i \<noteq> []" "js_trim i = i" "world_ok w1"
      by (auto dest: prompt_id_ok)
    show ?thesis
    proof (cases "map_has m i")
      case True
      with Inr r i Cons show ?thesis by auto
    next
      case False
      with Inr r Cons.prems obtain q w2 where
        n: "normPrompt ck cm i p w1 = Inr (q, w2)"
        and l: "promptLoop ck cm ps (map_set i q m) w2 = Inr (m', w')"
        by (auto split: sum.splits)
      from n i have q: "truthy (createdAt q)" "truthy (updatedAt q)" "world_ok w2"
        by (auto dest: normPrompt_stamped)
      with False i Cons.prems have "pmap_stamped (map_set i q m)"
        by (auto simp: pmap_stamped_def map_set_new)
      with l q Cons.IH show ?thesis by blast
    qed
  qed
qed

section \<open>What the normalizer establishes\<close>

lemma map_fst_snd_id: "\<forall>(k, c) \<in> set m. f c = k \<Longrightarrow> map f (map snd m) = map fst m"
  by (induction m) auto

lemma uncategorized_shaped:
  "uncategorized w = (u, w') \<Longrightarrow> c_id u = UNCATEGORIZED_ID \<and> category_shaped u"
  by (auto simp: uncategorized_def nowIso_def category_shaped_def UNCATEGORIZED_ID_def)

lemma uncategorized_stamped:
  "uncategorized w = (u, w') \<Longrightarrow> world_ok w \<Longrightarrow> truthy (c_createdAt u) \<and> world_ok w'"
  by (auto simp: uncategorized_def split: prod.splits dest: world_ok_nowIso)

lemma push_uncategorized_world:
  "push_uncategorized cs w = Inr (cs1, w1) \<Longrightarrow> world_ok w \<Longrightarrow> world_ok w1"
  by (auto simp: push_uncategorized_def split: sum.splits if_splits prod.splits
      dest: uncategorized_stamped)

lemma ensure_uncategorized_inv:
  assumes "ensure_uncategorized m w = (cm, w')" and "cmap_inv m"
  shows "cmap_inv cm \<and> map_has cm UNCATEGORIZED_ID"
proof (cases "map_has m UNCATEGORIZED_ID")
  case True
  with assms show ?thesis by (simp add: ensure_uncategorized_def)
next
  case False
  obtain u wu where u: "uncategorized w = (u, wu)" by (cases "uncategorized w")
  with assms False have "cm = map_set UNCATEGORIZED_ID u m" by (simp add: ensure_uncategorized_def)
  with assms(2) False uncategorized_shaped [OF u] show ?thesis
    by (simp add: cmap_inv_set)
qed

lemma ensure_uncategorized_stamped:
  assumes "ensure_uncategorized m w = (cm, w')" and "cmap_stamped m" and "world_ok w"
  shows "cmap_stamped cm \<and> world_ok w'"
proof (cases "map_has m UNCATEGORIZED_ID")
  case True
  with assms show ?thesis by (simp add: ensure_uncategorized_def)
next
  case False
  obtain u wu where u: "uncategorized w = (u, wu)" by (cases "uncategorized w")
  with assms False have "cm = map_set UNCATEGORIZED_ID u m" "w' = wu"
    by (simp_all add: ensure_uncategorized_def)
  with assms(2,3) False uncategorized_stamped [OF u] show ?thesis
    by (auto simp: cmap_stamped_def map_set_new)
qed

lemma categoryMapOf_Inr:
  assumes "categoryMapOf w j = Inr (cm, w')"
  obtains cs0 cs1 w1 m0 w2 where
    "push_uncategorized cs0 w = Inr (cs1, w1)"
    "categoryLoop cs1 [] w1 = Inr (m0, w2)"
    "ensure_uncategorized m0 w2 = (cm, w')"
  using assms by (auto simp: categoryMapOf_def split: sum.splits)

lemma categoryMapOf_inv:
  assumes "categoryMapOf w j = Inr (cm, w')"
  shows "cmap_inv cm \<and> map_has cm UNCATEGORIZED_ID"
proof -
  from assms obtain cs1 w1 m0 w2 where
    cl: "categoryLoop cs1 [] w1 = Inr (m0, w2)"
    and cm: "ensure_uncategorized m0 w2 = (cm, w')"
    by (rule categoryMapOf_Inr)
  from cl have "cmap_inv m0" by (rule categoryLoop_inv) (simp add: cmap_inv_def)
  with cm show ?thesis by (rule ensure_uncategorized_inv)
qed

lemma categoryMapOf_stamped:
  assumes "categoryMapOf w j = Inr (cm, w')" and "world_ok w"
  shows "cmap_stamped cm \<and> world_ok w'"
proof -
  from assms(1) obtain cs0 cs1 w1 m0 w2 where
    pu: "push_uncategorized cs0 w = Inr (cs1, w1)"
    and cl: "categoryLoop cs1 [] w1 = Inr (m0, w2)"
    and cm: "ensure_uncategorized m0 w2 = (cm, w')"
    by (rule categoryMapOf_Inr)
  from pu assms(2) have "world_ok w1" by (rule push_uncategorized_world)
  with cl have "cmap_stamped m0 \<and> world_ok w2"
    by (rule categoryLoop_stamped) (simp add: cmap_stamped_def)
  with cm show ?thesis by (auto dest: ensure_uncategorized_stamped)
qed

lemma promptMapOf_inv:
  assumes "promptMapOf ck cm w j = Inr (pm, w')" and "map_has cm UNCATEGORIZED_ID"
  shows "pmap_inv ck (set (map fst cm)) pm"
proof -
  from assms(1) obtain ps where "promptLoop ck cm ps [] w = Inr (pm, w')"
    by (auto simp: promptMapOf_def split: sum.splits)
  then show ?thesis using assms(2) by (rule promptLoop_inv) (simp add: pmap_inv_def)
qed

lemma promptMapOf_stamped:
  assumes "promptMapOf ck cm w j = Inr (pm, w')" and "world_ok w"
  shows "pmap_stamped pm \<and> world_ok w'"
proof -
  from assms(1) obtain ps where "promptLoop ck cm ps [] w = Inr (pm, w')"
    by (auto simp: promptMapOf_def split: sum.splits)
  then show ?thesis using assms(2) by (rule promptLoop_stamped) (simp add: pmap_stamped_def)
qed

lemma normalizeDb_Inr:
  assumes "normalizeDb ck w j = Inr (d, w')"
  obtains cm w1 pm where
    "categoryMapOf w j = Inr (cm, w1)" "promptMapOf ck cm w1 j = Inr (pm, w')"
    "d = \<lparr>version = 1, categories = map snd cm, prompts = map snd pm\<rparr>"
  using assms by (auto simp: normalizeDb_def split: sum.splits)

lemma normalizeDb_shaped:
  assumes "normalizeDb ck w j = Inr (d, w')"
  shows "shaped ck d"
proof -
  from assms obtain cm w1 pm where
    c: "categoryMapOf w j = Inr (cm, w1)" and p: "promptMapOf ck cm w1 j = Inr (pm, w')"
    and d: "d = \<lparr>version = 1, categories = map snd cm, prompts = map snd pm\<rparr>"
    by (rule normalizeDb_Inr)
  from c have ci: "cmap_inv cm" "map_has cm UNCATEGORIZED_ID" by (auto dest: categoryMapOf_inv)
  from p ci(2) have pi: "pmap_inv ck (set (map fst cm)) pm" by (rule promptMapOf_inv)
  from ci have 1: "map c_id (map snd cm) = map fst cm"
    by (intro map_fst_snd_id) (auto simp: cmap_inv_def)
  from pi have 2: "map p_id (map snd pm) = map fst pm"
    by (intro map_fst_snd_id) (auto simp: pmap_inv_def)
  have cd: "categories d = map snd cm" "prompts d = map snd pm" "version d = 1"
    by (simp_all add: d)
  from ci pi show ?thesis
    unfolding shaped_def cd 1 2 by (auto simp: cmap_inv_def pmap_inv_def map_has_def)
qed

lemma normalizeDb_canonical:
  assumes "normalizeDb ck w j = Inr (d, w')" and "world_ok w"
  shows "canonical ck d"
proof -
  from assms(1) obtain cm w1 pm where
    c: "categoryMapOf w j = Inr (cm, w1)" and p: "promptMapOf ck cm w1 j = Inr (pm, w')"
    and d: "d = \<lparr>version = 1, categories = map snd cm, prompts = map snd pm\<rparr>"
    by (rule normalizeDb_Inr)
  from c assms(2) have cs: "cmap_stamped cm" "world_ok w1" by (auto dest: categoryMapOf_stamped)
  from p cs(2) have ps: "pmap_stamped pm" by (auto dest: promptMapOf_stamped)
  from c have "map_has cm UNCATEGORIZED_ID" by (auto dest: categoryMapOf_inv)
  with p have "pmap_inv ck (set (map fst cm)) pm" by (rule promptMapOf_inv)
  then have k: "\<forall>(k, q) \<in> set pm. p_id q = k" by (auto simp: pmap_inv_def)
  from assms(1) have "shaped ck d" by (rule normalizeDb_shaped)
  have cd: "categories d = map snd cm" "prompts d = map snd pm"
    by (simp_all add: d)
  have "\<forall>c \<in> set (map snd cm). truthy (c_createdAt c)"
    using cs(1) by (auto simp: cmap_stamped_def)
  moreover have "\<forall>p \<in> set (map snd pm).
         p_id p \<noteq> [] \<and> js_trim (p_id p) = p_id p \<and> truthy (createdAt p) \<and> truthy (updatedAt p)"
    using ps k by (fastforce simp: pmap_stamped_def)
  ultimately show ?thesis
    unfolding canonical_def cd using \<open>shaped ck d\<close> by simp
qed

section \<open>The normalizer on a canonical document\<close>

lemma get_prop_category_value [simp]:
  "get_prop (category_value c) ''id'' = Inr (Str (c_id c))"
  "get_prop (category_value c) ''name'' = Inr (Str (c_name c))"
  "get_prop (category_value c) ''createdAt'' = Inr (c_createdAt c)"
  by (simp_all add: category_value_def)

lemma get_prop_prompt_value [simp]:
  "get_prop (prompt_value p) ''id'' = Inr (Str (p_id p))"
  "get_prop (prompt_value p) ''title'' = Inr (Str (title p))"
  "get_prop (prompt_value p) ''categoryId'' = Inr (Str (categoryId p))"
  "get_prop (prompt_value p) ''content'' = Inr (Str (content p))"
  "get_prop (prompt_value p) ''tags'' = Inr (Arr (map Str (tags p)))"
  "get_prop (prompt_value p) ''favorite'' = Inr (Bool (favorite p))"
  "get_prop (prompt_value p) ''createdAt'' = Inr (createdAt p)"
  "get_prop (prompt_value p) ''updatedAt'' = Inr (updatedAt p)"
  "get_prop (prompt_value p) ''lastUsedAt'' = Inr (lastUsedAt p)"
  by (simp_all add: prompt_value_def)

lemma get_prop_db_value [simp]:
  "get_prop (db_value d) ''categories'' = Inr (Arr (map category_value (categories d)))"
  "get_prop (db_value d) ''prompts'' = Inr (Arr (map prompt_value (prompts d)))"
  by (simp_all add: db_value_def)

lemma some_uncategorized_typed:
  "some_uncategorized (map category_value cs) = Inr (UNCATEGORIZED_ID \<in> set (map c_id cs))"
  by (induction cs) auto

lemma push_uncategorized_typed:
  "UNCATEGORIZED_ID \<in> set (map c_id cs)
     \<Longrightarrow> push_uncategorized (map category_value cs) w = Inr (map category_value cs, w)"
  by (simp add: push_uncategorized_def some_uncategorized_typed)

lemma trimmed_id_category [simp]: "trimmed_id (category_value c) = Inr (js_trim (c_id c))"
  by (simp add: trimmed_id_def)

lemma trimmed_id_prompt [simp]: "trimmed_id (prompt_value p) = Inr (js_trim (p_id p))"
  by (simp add: trimmed_id_def)

lemma normCategory_id:
  "category_shaped c \<Longrightarrow> truthy (c_createdAt c) \<Longrightarrow> normCategory (c_id c) (category_value c) w = Inr (c, w)"
  by (simp add: normCategory_def trimmed_or_def or_now_def category_shaped_def)

lemma categoryLoop_id:
  "\<forall>c \<in> set cs. category_shaped c \<and> truthy (c_createdAt c) \<Longrightarrow> distinct (map c_id cs)
     \<Longrightarrow> set (map c_id cs) \<inter> set (map fst m) = {}
     \<Longrightarrow> categoryLoop (map category_value cs) m w = Inr (m @ map (\<lambda>c. (c_id c, c)) cs, w)"
proof (induction cs arbitrary: m)
  case Nil
  then show ?case by simp
next
  case (Cons c cs)
  from Cons.prems have c: "category_shaped c" "truthy (c_createdAt c)" "\<not> map_has m (c_id c)"
    by (auto simp: map_has_def)
  then have t: "js_trim (c_id c) = c_id c" "c_id c \<noteq> []" by (simp_all add: category_shaped_def)
  have "categoryLoop (map category_value (c # cs)) m w
          = categoryLoop (map category_value cs) (m @ [(c_id c, c)]) w"
    using c t by (simp add: normCategory_id map_set_new)
  also have "\<dots> = Inr ((m @ [(c_id c, c)]) @ map (\<lambda>c. (c_id c, c)) cs, w)"
    using Cons.prems by (intro Cons.IH) auto
  finally show ?case by simp
qed

lemma trim_all_strings: "trim_all (map Str ts) = Inr (map js_trim ts)"
  by (induction ts) auto

lemma normTags_trim: "normTags ck (map js_trim ts) = normTags ck ts"
  by (simp add: normTags_def comp_def)

lemma normPrompt_id:
  assumes "prompt_shaped ck (set (map fst cm)) p" "truthy (createdAt p)" "truthy (updatedAt p)"
  shows "normPrompt ck cm (p_id p) (prompt_value p) w = Inr (p, w)"
proof -
  from assms(1) have "normTags ck (map js_trim (tags p)) = tags p"
    by (simp add: normTags_trim normTags_id prompt_shaped_def)
  moreover from assms(1) have "(if truthy (lastUsedAt p) then lastUsedAt p else Null) = lastUsedAt p"
    by (auto simp: prompt_shaped_def)
  moreover from assms(1) have "map_has cm (categoryId p)"
    by (simp add: prompt_shaped_def map_has_def)
  ultimately show ?thesis using assms
    by (simp add: normPrompt_def trimmed_tags_def trim_all_strings trimmed_or_def or_now_def
        prompt_shaped_def)
qed

lemma promptLoop_id:
  "\<forall>p \<in> set ps. prompt_shaped ck (set (map fst cm)) p \<and> p_id p \<noteq> [] \<and> js_trim (p_id p) = p_id p
        \<and> truthy (createdAt p) \<and> truthy (updatedAt p) \<Longrightarrow> distinct (map p_id ps)
     \<Longrightarrow> set (map p_id ps) \<inter> set (map fst m) = {}
     \<Longrightarrow> promptLoop ck cm (map prompt_value ps) m w = Inr (m @ map (\<lambda>p. (p_id p, p)) ps, w)"
proof (induction ps arbitrary: m)
  case Nil
  then show ?case by simp
next
  case (Cons p ps)
  from Cons.prems have p: "prompt_shaped ck (set (map fst cm)) p" "truthy (createdAt p)"
    "truthy (updatedAt p)" "\<not> map_has m (p_id p)" "js_trim (p_id p) = p_id p" "p_id p \<noteq> []"
    by (auto simp: map_has_def)
  have "promptLoop ck cm (map prompt_value (p # ps)) m w
          = promptLoop ck cm (map prompt_value ps) (m @ [(p_id p, p)]) w"
    using p by (simp add: prompt_id_def normPrompt_id map_set_new)
  also have "\<dots> = Inr ((m @ [(p_id p, p)]) @ map (\<lambda>p. (p_id p, p)) ps, w)"
    using Cons.prems by (intro Cons.IH) auto
  finally show ?case by simp
qed

lemma normalizeDb_id:
  assumes "canonical ck d"
  shows "normalizeDb ck w (db_value d) = Inr (d, w)"
proof -
  from assms have s: "shaped ck d" by (simp add: canonical_def)
  let ?cm = "map (\<lambda>c. (c_id c, c)) (categories d)"
  have fst_cm: "map fst ?cm = map c_id (categories d)" by (simp add: comp_def)
  have snd_cm: "map snd ?cm = categories d" by (simp add: comp_def)
  from s have u: "UNCATEGORIZED_ID \<in> set (map c_id (categories d))" by (simp add: shaped_def)
  have "categoryLoop (map category_value (categories d)) [] w = Inr ([] @ ?cm, w)"
    using assms s by (intro categoryLoop_id) (auto simp: canonical_def shaped_def)
  moreover from u have "ensure_uncategorized ?cm w = (?cm, w)"
    unfolding ensure_uncategorized_def map_has_def fst_cm by simp
  ultimately have 1: "categoryMapOf w (db_value d) = Inr (?cm, w)"
    using u by (simp add: categoryMapOf_def push_uncategorized_typed)
  let ?pm = "map (\<lambda>p. (p_id p, p)) (prompts d)"
  have snd_pm: "map snd ?pm = prompts d" by (simp add: comp_def)
  have "promptLoop ck ?cm (map prompt_value (prompts d)) [] w = Inr ([] @ ?pm, w)"
    using assms s unfolding fst_cm by (intro promptLoop_id) (auto simp: canonical_def shaped_def)
  then have 2: "promptMapOf ck ?cm w (db_value d) = Inr (?pm, w)"
    by (simp add: promptMapOf_def)
  from s have "version d = 1" by (simp add: shaped_def)
  then have "\<lparr>version = 1, categories = categories d, prompts = prompts d\<rparr> = d" by simp
  with 1 2 show ?thesis by (simp add: normalizeDb_def comp_def)
qed

section \<open>The merge: the loops\<close>

lemma map_of_map_set [simp]: "map_of (map_set k v m) = (map_of m)(k \<mapsto> v)"
  by (simp add: map_set_def update_conv')

lemma keys_map_set [simp]: "fst ` set (map_set k v m) = insert k (fst ` set m)"
  by (simp add: map_set_def dom_update)

lemma set_map_set_subset: "set (map_set k v m) \<subseteq> insert (k, v) (set m)"
  unfolding map_set_def by (induction m) auto

lemma map_has_map_of: "map_has m k \<longleftrightarrow> map_of m k \<noteq> None"
  by (simp add: map_has_def map_of_eq_None_iff)

lemma fold_map_set_distinct:
  "distinct (map fst (acc @ es)) \<Longrightarrow> fold (\<lambda>(k, v) m. map_set k v m) es acc = acc @ es"
proof (induction es arbitrary: acc)
  case Nil
  then show ?case by simp
next
  case (Cons e es)
  obtain k v where e: "e = (k, v)" by (cases e)
  from Cons.prems e have "\<not> map_has acc k" by (auto simp: map_has_def)
  then have "map_set k v acc = acc @ [(k, v)]" by (rule map_set_new)
  with Cons e show ?case by simp
qed

lemma new_Map_distinct: "distinct (map fst es) \<Longrightarrow> new_Map es = es"
  using fold_map_set_distinct [of "[]" es] by (simp add: new_Map_def)

lemma fold_map_set_map_of:
  "map_of (fold (\<lambda>(k, v) m. map_set k v m) es acc) k = Some v
     \<Longrightarrow> (k, v) \<in> set es \<or> map_of acc k = Some v"
proof (induction es arbitrary: acc)
  case Nil
  then show ?case by simp
next
  case (Cons e es)
  obtain k' v' where e: "e = (k', v')" by (cases e)
  with Cons.prems have "map_of (fold (\<lambda>(k, v) m. map_set k v m) es (map_set k' v' acc)) k = Some v"
    by simp
  then have "(k, v) \<in> set es \<or> map_of (map_set k' v' acc) k = Some v"
    by (rule Cons.IH)
  with e show ?case by (auto split: if_splits)
qed

lemma new_Map_map_of: "map_of (new_Map es) k = Some v \<Longrightarrow> (k, v) \<in> set es"
  using fold_map_set_map_of [of es "[]" k v] by (simp add: new_Map_def)

lemma fold_map_set_keys:
  "fst ` set (fold (\<lambda>(k, v) m. map_set k v m) es acc) = fst ` set acc \<union> fst ` set es"
proof (induction es arbitrary: acc)
  case Nil
  then show ?case by simp
next
  case (Cons e es)
  obtain k' v' where e: "e = (k', v')" by (cases e)
  show ?case unfolding e by (simp add: Cons.IH)
qed

lemma new_Map_keys: "fst ` set (new_Map es) = fst ` set es"
  by (simp add: new_Map_def fold_map_set_keys)

lemma find_map_of:
  "\<forall>(k, q) \<in> set m. f q = k \<Longrightarrow> find (\<lambda>q. f q = k) (map snd m) = map_of m k"
  by (induction m) auto

lemma or_uuid_nonempty [simp]: "x \<noteq> [] \<Longrightarrow> or_uuid x w = (x, w)"
  by (simp add: or_uuid_def)


lemma mergeCategories_step:
  assumes "c_id c \<noteq> []"
  shows "mergeCategories (c # cs) (cats, im, nm) w =
     (if map_has im (c_id c) then mergeCategories cs (cats, map_set (c_id c) (c_id c) im, nm) w
      else if (\<exists>e. map_of nm (js_toLowerCase (c_name c)) = Some e \<and> e \<noteq> [])
      then mergeCategories cs
             (cats, map_set (c_id c) (the (map_of nm (js_toLowerCase (c_name c)))) im, nm) w
      else mergeCategories cs
             (cats @ [c], map_set (c_id c) (c_id c) im,
              map_set (js_toLowerCase (c_name c)) (c_id c) nm) w)"
  using assms by (auto simp: map_get_def split: option.splits)

lemma mergeCategories_step_has:
  "c_id c \<noteq> [] \<Longrightarrow> map_has im (c_id c) \<Longrightarrow>
   mergeCategories (c # cs) (cats, im, nm) w
     = mergeCategories cs (cats, map_set (c_id c) (c_id c) im, nm) w"
  by simp

lemma mergeCategories_step_name:
  "c_id c \<noteq> [] \<Longrightarrow> \<not> map_has im (c_id c) \<Longrightarrow> map_of nm (js_toLowerCase (c_name c)) = Some e
     \<Longrightarrow> e \<noteq> [] \<Longrightarrow>
   mergeCategories (c # cs) (cats, im, nm) w = mergeCategories cs (cats, map_set (c_id c) e im, nm) w"
  by (simp add: map_get_def)

lemma mergeCategories_step_new:
  "c_id c \<noteq> [] \<Longrightarrow> \<not> map_has im (c_id c)
     \<Longrightarrow> \<not> (\<exists>e. map_of nm (js_toLowerCase (c_name c)) = Some e \<and> e \<noteq> []) \<Longrightarrow>
   mergeCategories (c # cs) (cats, im, nm) w
     = mergeCategories cs
         (cats @ [c], map_set (c_id c) (c_id c) im, map_set (js_toLowerCase (c_name c)) (c_id c) nm) w"
  by (auto simp: map_get_def split: option.splits)

lemma mergeCategories_inv:
  assumes "mergeCategories cs (cats, im, nm) w = ((cats', im', nm'), w')"
    and "distinct (map c_id cs)"
    and "\<forall>c \<in> set cs. category_shaped c \<and> truthy (c_createdAt c)"
    and "merge_inv cats im nm"
    and "\<forall>c \<in> set cs. map_has im (c_id c) \<longrightarrow> c_id c \<in> set (map c_id cats)"
  shows "merge_inv cats' im' nm' \<and> w' = w \<and> set (map c_id cats) \<subseteq> set (map c_id cats')"
  using assms
proof (induction cs arbitrary: cats im nm)
  case Nil
  then show ?case by simp
next
  case (Cons c cs)
  let ?i = "c_id c" and ?n = "js_toLowerCase (c_name c)"
  from Cons.prems have i: "?i \<noteq> []" and c: "category_shaped c" "truthy (c_createdAt c)"
    by (auto simp: category_shaped_def)
  from Cons.prems have rest: "distinct (map c_id cs)"
    "\<forall>c \<in> set cs. category_shaped c \<and> truthy (c_createdAt c)" "?i \<notin> set (map c_id cs)"
    by auto
  from rest(3) have ne: "\<forall>c' \<in> set cs. c_id c' \<noteq> ?i" by (metis image_eqI set_map)
  note step = mergeCategories_step [OF i, of cs cats im nm w]
  show ?case
  proof (cases "map_has im ?i")
    case True
    with Cons.prems have "?i \<in> set (map c_id cats)" by simp
    with Cons.prems(4) have inv: "merge_inv cats (map_set ?i ?i im) nm"
      by (auto simp: merge_inv_def)
    have "\<forall>c' \<in> set cs. map_has (map_set ?i ?i im) (c_id c') \<longrightarrow> c_id c' \<in> set (map c_id cats)"
      using Cons.prems(5) ne by auto
    with Cons.IH [of cats "map_set ?i ?i im" nm] Cons.prems(1) step True rest inv
    show ?thesis by simp
  next
    case False
    show ?thesis
    proof (cases "\<exists>e. map_of nm ?n = Some e \<and> e \<noteq> []")
      case True
      then obtain e where e: "map_of nm ?n = Some e" "e \<noteq> []" by blast
      with Cons.prems(4) have "e \<in> set (map c_id cats)" by (auto simp: merge_inv_def)
      with Cons.prems(4) have inv: "merge_inv cats (map_set ?i e im) nm"
        by (auto simp: merge_inv_def)
      have "\<forall>c' \<in> set cs. map_has (map_set ?i e im) (c_id c') \<longrightarrow> c_id c' \<in> set (map c_id cats)"
        using Cons.prems(5) ne by auto
      with Cons.IH [of cats "map_set ?i e im" nm] Cons.prems(1) step False True e rest inv
      show ?thesis by simp
    next
      case noname: False
      from False Cons.prems(4) have new: "?i \<notin> set (map c_id cats)"
        by (auto simp: merge_inv_def map_has_def)
      with Cons.prems(4) c have inv: "merge_inv (cats @ [c]) (map_set ?i ?i im) (map_set ?n ?i nm)"
        by (auto simp: merge_inv_def)
      have "\<forall>c' \<in> set cs. map_has (map_set ?i ?i im) (c_id c') \<longrightarrow> c_id c' \<in> set (map c_id (cats @ [c]))"
        using Cons.prems(5) ne by auto
      with Cons.IH [of "cats @ [c]" "map_set ?i ?i im" "map_set ?n ?i nm"] Cons.prems(1) step False
        noname rest inv
      show ?thesis by auto
    qed
  qed
qed


lemma mergeCategories_other:
  assumes "mergeCategories cs (cats, im, nm) w = ((cats', im', nm'), w')"
    and "\<forall>c \<in> set cs. c_id c \<noteq> []" and "k \<notin> set (map c_id cs)"
  shows "map_of im' k = map_of im k \<and> (k \<notin> set (map c_id cats) \<longrightarrow> k \<notin> set (map c_id cats'))"
  using assms
proof (induction cs arbitrary: cats im nm)
  case Nil
  then show ?case by simp
next
  case (Cons c cs)
  from Cons.prems have i: "c_id c \<noteq> []" and k: "k \<noteq> c_id c" "k \<notin> set (map c_id cs)"
    and ne: "\<forall>c \<in> set cs. c_id c \<noteq> []" by auto
  obtain cats1 im1 nm1 where
    1: "mergeCategories cs (cats1, im1, nm1) w = ((cats', im', nm'), w')"
    and 2: "map_of im1 k = map_of im k"
    and 3: "k \<notin> set (map c_id cats) \<longrightarrow> k \<notin> set (map c_id cats1)"
    using Cons.prems(1) k(1) unfolding mergeCategories_step [OF i]
    by (auto split: if_splits)
  from Cons.IH [OF 1 ne k(2)] 2 3 show ?case by simp
qed

lemma mergeCategories_name_hit:
  assumes "mergeCategories cs (cats, im, nm) w = ((cats', im', nm'), w')"
    and "c \<in> set cs" and "distinct (map c_id cs)" and "\<forall>c \<in> set cs. c_id c \<noteq> []"
    and "\<not> map_has im (c_id c)"
    and "map_of nm (js_toLowerCase (c_name c)) = Some e" and "e \<noteq> []"
    and "c_id c \<notin> set (map c_id cats)"
  shows "map_of im' (c_id c) = Some e \<and> c_id c \<notin> set (map c_id cats')"
  using assms
proof (induction cs arbitrary: cats im nm)
  case Nil
  then show ?case by simp
next
  case (Cons a cs)
  from Cons.prems have i: "c_id a \<noteq> []" and ne: "\<forall>c \<in> set cs. c_id c \<noteq> []"
    and d: "distinct (map c_id cs)" "c_id a \<notin> set (map c_id cs)" by auto
  show ?case
  proof (cases "a = c")
    case True
    with Cons.prems d have r: "mergeCategories cs (cats, map_set (c_id c) e im, nm) w = ((cats', im', nm'), w')"
      and k: "c_id c \<notin> set (map c_id cs)"
      unfolding mergeCategories_step [OF i] by auto
    from mergeCategories_other [OF r ne k] Cons.prems show ?thesis by simp
  next
    case False
    with Cons.prems have c: "c \<in> set cs" by simp
    with d have neq: "c_id a \<noteq> c_id c" by (metis image_eqI set_map)
    have "\<exists>cats1 im1 nm1.
        mergeCategories cs (cats1, im1, nm1) w = ((cats', im', nm'), w') \<and>
        \<not> map_has im1 (c_id c) \<and> map_of nm1 (js_toLowerCase (c_name c)) = Some e \<and>
        c_id c \<notin> set (map c_id cats1)"
    proof (cases "map_has im (c_id a)")
      case True
      with Cons.prems(1) have "mergeCategories cs (cats, map_set (c_id a) (c_id a) im, nm) w
          = ((cats', im', nm'), w')"
        by (simp only: mergeCategories_step_has [OF i True])
      moreover from Cons.prems(5) neq have "\<not> map_has (map_set (c_id a) (c_id a) im) (c_id c)"
        by simp
      ultimately show ?thesis using Cons.prems(6,8) by blast
    next
      case nohas: False
      show ?thesis
      proof (cases "\<exists>e. map_of nm (js_toLowerCase (c_name a)) = Some e \<and> e \<noteq> []")
        case True
        then obtain e' where e': "map_of nm (js_toLowerCase (c_name a)) = Some e'" "e' \<noteq> []"
          by blast
        from Cons.prems(1) have "mergeCategories cs (cats, map_set (c_id a) e' im, nm) w
          = ((cats', im', nm'), w')"
          by (simp only: mergeCategories_step_name [OF i nohas e'])
        moreover from Cons.prems(5) neq have "\<not> map_has (map_set (c_id a) e' im) (c_id c)"
          by simp
        ultimately show ?thesis using Cons.prems(6,8) by blast
      next
        case False
        with Cons.prems(6,7) have n: "js_toLowerCase (c_name a) \<noteq> js_toLowerCase (c_name c)"
          by auto
        from Cons.prems(1) have "mergeCategories cs
            (cats @ [a], map_set (c_id a) (c_id a) im,
             map_set (js_toLowerCase (c_name a)) (c_id a) nm) w
          = ((cats', im', nm'), w')"
          by (simp only: mergeCategories_step_new [OF i nohas False])
        moreover from Cons.prems(5) neq have "\<not> map_has (map_set (c_id a) (c_id a) im) (c_id c)"
          by simp
        moreover from n Cons.prems(6) have
          "map_of (map_set (js_toLowerCase (c_name a)) (c_id a) nm) (js_toLowerCase (c_name c)) = Some e"
          by simp
        moreover from Cons.prems(8) neq have "c_id c \<notin> set (map c_id (cats @ [a]))"
          by simp
        ultimately show ?thesis by blast
      qed
    qed
    then obtain cats1 im1 nm1 where
      1: "mergeCategories cs (cats1, im1, nm1) w = ((cats', im', nm'), w')"
      and 2: "\<not> map_has im1 (c_id c)"
      and 3: "map_of nm1 (js_toLowerCase (c_name c)) = Some e"
      and 4: "c_id c \<notin> set (map c_id cats1)"
      by blast
    from Cons.IH [OF 1 c d(1) ne 2 3 Cons.prems(7) 4] show ?thesis .
  qed
qed

lemma mergePrompts_other:
  assumes "mergePrompts ck im ps pm w = (pm', w')"
    and "\<forall>p \<in> set ps. p_id p \<noteq> []" and "k \<notin> set (map p_id ps)"
  shows "map_of pm' k = map_of pm k"
  using assms by (induction ps arbitrary: pm) auto

lemma mergePrompts_map_of:
  assumes "mergePrompts ck im ps pm w = (pm', w')"
    and "\<forall>p \<in> set ps. p_id p \<noteq> []" and "distinct (map p_id ps)" and "p \<in> set ps"
  shows "map_of pm' (p_id p)
           = Some (p\<lparr>categoryId := resolveCategory im (categoryId p), tags := normTags ck (tags p)\<rparr>)"
  using assms
proof (induction ps arbitrary: pm)
  case Nil
  then show ?case by simp
next
  case (Cons a ps)
  from Cons.prems have i: "p_id a \<noteq> []" and ne: "\<forall>p \<in> set ps. p_id p \<noteq> []"
    and d: "distinct (map p_id ps)" "p_id a \<notin> set (map p_id ps)" by auto
  let ?pm1 = "map_set (p_id a)
      (a\<lparr>p_id := p_id a, categoryId := resolveCategory im (categoryId a), tags := normTags ck (tags a)\<rparr>) pm"
  from Cons.prems(1) i have r: "mergePrompts ck im ps ?pm1 w = (pm', w')" by simp
  show ?case
  proof (cases "a = p")
    case True
    with mergePrompts_other [OF r ne d(2)] show ?thesis by simp
  next
    case False
    with Cons.prems have "p \<in> set ps" by simp
    with Cons.IH [OF r ne d(1)] show ?thesis by simp
  qed
qed

lemma mergePrompts_inv:
  assumes "mergePrompts ck im ps pm w = (pm', w')"
    and "\<forall>p \<in> set ps. prompt_shaped ck ids0 p \<and> p_id p \<noteq> [] \<and> js_trim (p_id p) = p_id p \<and>
           truthy (createdAt p) \<and> truthy (updatedAt p)"
    and "pmap_inv ck ids pm" and "pmap_stamped pm" and "\<forall>c. resolveCategory im c \<in> ids"
  shows "pmap_inv ck ids pm' \<and> pmap_stamped pm' \<and> w' = w"
  using assms
proof (induction ps arbitrary: pm)
  case Nil
  then show ?case by simp
next
  case (Cons a ps)
  let ?a' = "a\<lparr>p_id := p_id a, categoryId := resolveCategory im (categoryId a), tags := normTags ck (tags a)\<rparr>"
  let ?pm1 = "map_set (p_id a) ?a' pm"
  from Cons.prems have a: "prompt_shaped ck ids0 a" "p_id a \<noteq> []" "js_trim (p_id a) = p_id a"
    "truthy (createdAt a)" "truthy (updatedAt a)" by auto
  from Cons.prems(1) a have r: "mergePrompts ck im ps ?pm1 w = (pm', w')" by simp
  from a(1) Cons.prems(5) have sh: "prompt_shaped ck ids ?a'"
    by (simp add: prompt_shaped_def tags_ok_normTags)
  have sub: "set ?pm1 \<subseteq> insert (p_id a, ?a') (set pm)" by (rule set_map_set_subset)
  from Cons.prems(3) sh sub have 1: "pmap_inv ck ids ?pm1"
    unfolding pmap_inv_def by (auto simp: distinct_map_set)
  from Cons.prems(4) a sub have 2: "pmap_stamped ?pm1"
    unfolding pmap_stamped_def by auto
  from Cons.IH [OF r _ 1 2 Cons.prems(5)] Cons.prems(2) show ?case by simp
qed

section \<open>The merge: the result is canonical\<close>

lemma prompt_shaped_mono: "prompt_shaped ck ids p \<Longrightarrow> ids \<subseteq> ids' \<Longrightarrow> prompt_shaped ck ids' p"
  by (auto simp: prompt_shaped_def)

lemma map_of_diag: "map_of (map (\<lambda>c. (f c, f c)) cs) k = Some v \<Longrightarrow> v = k \<and> k \<in> set (map f cs)"
  by (induction cs) (auto split: if_splits)

lemma merged_canonical:
  assumes cur: "canonical ck cur" and imp: "canonical ck imp"
  obtains cats im nm pm where
    "mergedCategories cur imp w = ((cats, im, nm), w)"
    "merge_inv cats im nm"
    "set (map c_id (categories cur)) \<subseteq> set (map c_id cats)"
    "mergePrompts ck im (prompts imp) (map (\<lambda>p. (p_id p, p)) (prompts cur)) w = (pm, w)"
    "pmap_inv ck (set (map c_id cats)) pm"
    "mergeImported ck w cur imp = Inr (\<lparr>version = 1, categories = cats, prompts = map snd pm\<rparr>, w)"
proof -
  let ?cats0 = "categories cur"
  let ?im0 = "map (\<lambda>c. (c_id c, c_id c)) ?cats0"
  let ?nm0 = "new_Map (map (\<lambda>c. (js_toLowerCase (c_name c), c_id c)) ?cats0)"
  from cur have scur: "shaped ck cur" by (simp add: canonical_def)
  from imp have simp': "shaped ck imp" by (simp add: canonical_def)
  have im0: "new_Map ?im0 = ?im0"
    using scur by (intro new_Map_distinct) (simp add: shaped_def comp_def)
  have keys0: "fst ` set ?im0 = set (map c_id ?cats0)" by (simp add: image_comp comp_def)
  have inv0: "merge_inv ?cats0 ?im0 ?nm0"
    unfolding merge_inv_def
  proof (intro conjI allI impI)
    show "distinct (map c_id ?cats0)" using scur by (simp add: shaped_def)
    show "\<forall>c \<in> set ?cats0. category_shaped c \<and> truthy (c_createdAt c)"
      using cur by (simp add: canonical_def shaped_def)
    show "set (map c_id ?cats0) \<subseteq> fst ` set ?im0" using keys0 by simp
  next
    fix k v assume "map_of ?im0 k = Some v"
    then show "v \<in> set (map c_id ?cats0)" by (auto dest: map_of_diag)
  next
    fix k v assume "map_of ?nm0 k = Some v"
    then have "(k, v) \<in> set (map (\<lambda>c. (js_toLowerCase (c_name c), c_id c)) ?cats0)"
      by (rule new_Map_map_of)
    then show "v \<in> set (map c_id ?cats0)" by auto
  qed
  obtain st1 w' where "mergeCategories (categories imp) (?cats0, ?im0, ?nm0) w = (st1, w')"
    by (cases "mergeCategories (categories imp) (?cats0, ?im0, ?nm0) w")
  moreover obtain cats im' nm where "st1 = (cats, im', nm)" by (cases st1)
  ultimately have
    mc: "mergeCategories (categories imp) (?cats0, ?im0, ?nm0) w = ((cats, im', nm), w')"
    by simp
  have "merge_inv cats im' nm \<and> w' = w \<and> set (map c_id ?cats0) \<subseteq> set (map c_id cats)"
  proof (rule mergeCategories_inv [OF mc _ _ inv0])
    show "distinct (map c_id (categories imp))" using simp' by (simp add: shaped_def)
    show "\<forall>c \<in> set (categories imp). category_shaped c \<and> truthy (c_createdAt c)"
      using imp by (simp add: canonical_def shaped_def)
    show "\<forall>c \<in> set (categories imp). map_has ?im0 (c_id c) \<longrightarrow> c_id c \<in> set (map c_id ?cats0)"
      unfolding map_has_def by (simp add: comp_def)
  qed
  then have inv': "merge_inv cats im' nm" and w': "w' = w"
    and sub: "set (map c_id ?cats0) \<subseteq> set (map c_id cats)" by simp_all
  let ?im = "map_set UNCATEGORIZED_ID UNCATEGORIZED_ID im'"
  from scur sub have u: "UNCATEGORIZED_ID \<in> set (map c_id cats)" by (auto simp: shaped_def)
  with inv' have inv: "merge_inv cats ?im nm" by (auto simp: merge_inv_def)
  from mc w' have 1: "mergedCategories cur imp w = ((cats, ?im, nm), w)"
    by (simp add: mergedCategories_def im0)
  from inv have ran: "\<And>k v. map_of ?im k = Some v \<Longrightarrow> v \<in> set (map c_id cats)"
    unfolding merge_inv_def by blast
  have res: "\<forall>c. resolveCategory ?im c \<in> set (map c_id cats)"
  proof
    fix c show "resolveCategory ?im c \<in> set (map c_id cats)"
      unfolding resolveCategory_def map_get_def
      by (cases "map_of ?im c") (use ran [of c] u in \<open>simp_all del: map_of_map_set\<close>)
  qed
  let ?pm0 = "map (\<lambda>p. (p_id p, p)) (prompts cur)"
  have pm0: "new_Map ?pm0 = ?pm0"
    using scur by (intro new_Map_distinct) (simp add: shaped_def comp_def)
  obtain pm w2 where mp: "mergePrompts ck ?im (prompts imp) ?pm0 w = (pm, w2)"
    by (cases "mergePrompts ck ?im (prompts imp) ?pm0 w")
  have "pmap_inv ck (set (map c_id cats)) pm \<and> pmap_stamped pm \<and> w2 = w"
  proof (rule mergePrompts_inv [OF mp _ _ _ res])
    show "\<forall>p \<in> set (prompts imp). prompt_shaped ck (set (map c_id (categories imp))) p \<and> p_id p \<noteq> [] \<and>
        js_trim (p_id p) = p_id p \<and> truthy (createdAt p) \<and> truthy (updatedAt p)"
      using imp by (simp add: canonical_def shaped_def)
    show "pmap_inv ck (set (map c_id cats)) ?pm0"
      using scur sub unfolding pmap_inv_def shaped_def
      by (auto simp: comp_def intro: prompt_shaped_mono)
    show "pmap_stamped ?pm0"
      using cur unfolding pmap_stamped_def canonical_def by auto
  qed
  then have pinv: "pmap_inv ck (set (map c_id cats)) pm" and pst: "pmap_stamped pm" and w2: "w2 = w"
    by simp_all
  let ?next = "\<lparr>version = 1, categories = cats, prompts = map snd pm\<rparr>"
  from pinv have ids: "map p_id (map snd pm) = map fst pm"
    by (intro map_fst_snd_id) (auto simp: pmap_inv_def)
  have "shaped ck ?next"
    using inv u pinv unfolding shaped_def
    by (auto simp: merge_inv_def pmap_inv_def ids simp del: map_map)
  moreover have "\<forall>p \<in> set (map snd pm).
      p_id p \<noteq> [] \<and> js_trim (p_id p) = p_id p \<and> truthy (createdAt p) \<and> truthy (updatedAt p)"
    using pinv pst unfolding pmap_inv_def pmap_stamped_def by fastforce
  ultimately have "canonical ck ?next"
    using inv unfolding canonical_def by (simp add: merge_inv_def)
  then have "normalizeDb ck w (db_value ?next) = Inr (?next, w)" by (rule normalizeDb_id)
  with 1 mp w2 have 3: "mergeImported ck w cur imp = Inr (?next, w)"
    by (simp add: mergeImported_def pm0)
  from 1 inv sub mp w2 pinv 3 that show ?thesis by blast
qed


lemma map_of_keyed:
  "distinct (map fst m) \<Longrightarrow> \<forall>(k, q) \<in> set m. f q = k \<Longrightarrow> q \<in> set (map snd m)
     \<Longrightarrow> map_of m (f q) = Some q"
  by (induction m) (auto simp: rev_image_eqI)

section \<open>The controller: helpers\<close>

lemma commit_cases:
  assumes "commit ck mut toastMessage st w = (r, st', w')"
  shows "(r = None \<and> (\<exists>d w1 w2. mut w (db st) = Inr (d, w1) \<and> normalizeDb ck w1 (db_value d) = Inr (db st', w')))
       \<or> (r \<noteq> None \<and> db st' = db st \<and> error st' = None \<and> renderError st' = r)"
  using assms by (auto simp: commit_def Let_def split: sum.splits prod.splits)

lemma shaped_trimmed:
  "shaped ck d \<Longrightarrow>
      (\<forall>p \<in> set (prompts d). js_trim (title p) = title p \<and> js_trim (content p) = content p \<and>
         (\<forall>t \<in> set (tags p). t \<noteq> [] \<and> js_trim t = t)) \<and>
      (\<forall>c \<in> set (categories d). js_trim (c_name c) = c_name c)"
  by (simp add: shaped_def prompt_shaped_def category_shaped_def tags_ok_def)

lemma length_filter_eq_one:
  "distinct xs \<Longrightarrow> x \<in> set xs \<Longrightarrow> length (filter (\<lambda>y. y = x) xs) = 1"
  by (induction xs) (auto simp: filter_empty_conv)

section \<open>The controller: what the other operations keep\<close>

lemma opt_prop_prompt_value [simp]:
  "opt_prop (prompt_value p) ''lastUsedAt'' = lastUsedAt p"
  by (simp add: opt_prop_def)

lemma prompt_id_typed:
  "prompt_id (prompt_value p) w = Inr (if js_trim (p_id p) \<noteq> [] then (js_trim (p_id p), w) else uuid w)"
  by (simp add: prompt_id_def)

lemma promptLoop_typed_source:
  assumes "promptLoop ck cm (map prompt_value ps) m w = Inr (m', w')"
  shows "\<forall>(k, q) \<in> set m'. (k, q) \<in> set m \<or>
           (\<exists>p \<in> set ps. lastUsedAt q = (if truthy (lastUsedAt p) then lastUsedAt p else Null) \<and>
              (js_trim (p_id p) \<noteq> [] \<longrightarrow> p_id q = js_trim (p_id p)))"
  using assms
proof (induction ps arbitrary: m w)
  case Nil
  then show ?case by auto
next
  case (Cons p ps)
  obtain i w1 where iw: "(if js_trim (p_id p) \<noteq> [] then (js_trim (p_id p), w) else uuid w) = (i, w1)"
    by (cases "if js_trim (p_id p) \<noteq> [] then (js_trim (p_id p), w) else uuid w")
  then have i: "prompt_id (prompt_value p) w = Inr (i, w1)"
    and ii: "js_trim (p_id p) \<noteq> [] \<longrightarrow> i = js_trim (p_id p)"
    by (auto simp: prompt_id_typed split: if_splits)
  show ?case
  proof (cases "map_has m i")
    case True
    with Cons.prems i have "promptLoop ck cm (map prompt_value ps) m w1 = Inr (m', w')" by simp
    from Cons.IH [OF this] show ?thesis by fastforce
  next
    case False
    with Cons.prems i obtain q w2 where
      n: "normPrompt ck cm i (prompt_value p) w1 = Inr (q, w2)"
      and l: "promptLoop ck cm (map prompt_value ps) (map_set i q m) w2 = Inr (m', w')"
      by (auto split: sum.splits)
    from n have q: "p_id q = i" "lastUsedAt q = (if truthy (lastUsedAt p) then lastUsedAt p else Null)"
      by (auto elim!: normPrompt_Inr)
    from False have s: "set (map_set i q m) = insert (i, q) (set m)" by (rule set_map_set_new)
    from Cons.IH [OF l] q ii show ?thesis unfolding s by fastforce
  qed
qed

lemma normalizeDb_typed_source:
  assumes "normalizeDb ck w (db_value d) = Inr (d', w')"
  shows "\<forall>q \<in> set (prompts d'). \<exists>p \<in> set (prompts d).
           lastUsedAt q = (if truthy (lastUsedAt p) then lastUsedAt p else Null) \<and>
           (js_trim (p_id p) \<noteq> [] \<longrightarrow> p_id q = js_trim (p_id p))"
proof -
  from assms obtain cm w1 pm where
    p: "promptMapOf ck cm w1 (db_value d) = Inr (pm, w')"
    and d': "d' = \<lparr>version = 1, categories = map snd cm, prompts = map snd pm\<rparr>"
    by (rule normalizeDb_Inr)
  from p have "promptLoop ck cm (map prompt_value (prompts d)) [] w1 = Inr (pm, w')"
    by (simp add: promptMapOf_def)
  from promptLoop_typed_source [OF this] show ?thesis unfolding d' by fastforce
qed

lemma kept_refl: "kept d d"
  by (auto simp: kept_def)

lemma commit_kept:
  assumes c: "commit ck mut t st w = (r, st', w')" and can: "canonical ck (db st)"
    and m: "\<And>d w1. mut w (db st) = Inr (d, w1) \<Longrightarrow> kept (db st) d"
  shows "kept (db st) (db st')"
proof (cases "r = None")
  case False
  with commit_cases [OF c] show ?thesis by (auto simp: kept_refl)
next
  case True
  with commit_cases [OF c] obtain d w1 where
    mu: "mut w (db st) = Inr (d, w1)" and n: "normalizeDb ck w1 (db_value d) = Inr (db st', w')"
    by auto
  from m [OF mu] have k: "kept (db st) d" .
  show ?thesis unfolding kept_def
  proof (intro ballI impI)
    fix q assume q: "q \<in> set (prompts (db st'))" "lastUsedAt q \<noteq> Null"
    with normalizeDb_typed_source [OF n] obtain p' where
      p': "p' \<in> set (prompts d)" "lastUsedAt q = (if truthy (lastUsedAt p') then lastUsedAt p' else Null)"
      "js_trim (p_id p') \<noteq> [] \<longrightarrow> p_id q = js_trim (p_id p')"
      by blast
    with q(2) have l: "lastUsedAt p' = lastUsedAt q" by (auto split: if_splits)
    with k p'(1) q(2) obtain p where
      p: "p \<in> set (prompts (db st))" "p_id p = p_id p'" "lastUsedAt p = lastUsedAt p'"
      unfolding kept_def by force
    from can p(1) have "p_id p \<noteq> []" "js_trim (p_id p) = p_id p" by (auto simp: canonical_def)
    with p(2) p'(3) have "p_id q = p_id p" by simp
    with p l show "\<exists>p \<in> set (prompts (db st)). p_id p = p_id q \<and> lastUsedAt p = lastUsedAt q"
      by auto
  qed
qed

lemma withValidation_db: "db (fst (withValidation act st w)) = db (fst (snd (act st w)))"
  by (simp add: withValidation_def split: prod.splits option.splits)

lemma reassign_kept:
  "reassign i ps w = (qs, w') \<Longrightarrow>
     \<forall>q \<in> set qs. \<exists>p \<in> set ps. p_id p = p_id q \<and> lastUsedAt p = lastUsedAt q"
proof (induction ps arbitrary: qs w)
  case Nil
  then show ?case by simp
next
  case (Cons a ps)
  then show ?case
    by (fastforce split: if_splits prod.splits)
qed

lemma kept_map:
  assumes "\<And>p. p_id (f p) = p_id p \<and> lastUsedAt (f p) = lastUsedAt p"
  shows "kept prev (prev\<lparr>prompts := map f (prompts prev)\<rparr>)"
  unfolding kept_def
proof (intro ballI impI)
  fix q assume "q \<in> set (prompts (prev\<lparr>prompts := map f (prompts prev)\<rparr>))"
  then obtain p where "p \<in> set (prompts prev)" "q = f p" by auto
  with assms [of p] show "\<exists>p \<in> set (prompts prev). p_id p = p_id q \<and> lastUsedAt p = lastUsedAt q"
    by auto
qed

lemma kept_append:
  "lastUsedAt x = Null \<Longrightarrow> kept prev (prev\<lparr>prompts := prompts prev @ [x]\<rparr>)"
  unfolding kept_def by auto

lemma kept_same_prompts: "prompts d = prompts prev \<Longrightarrow> kept prev d"
  unfolding kept_def by auto

lemma upsert_mutator_kept:
  assumes "upsert_mutator ck draft i w prev = Inr (d, w1)"
  shows "kept prev d"
proof (cases "find (\<lambda>p. p_id p = i) (prompts prev)")
  case None
  with assms show ?thesis
    by (auto simp: upsert_mutator_def Let_def split: prod.splits intro!: kept_append)
next
  case (Some e)
  with assms show ?thesis
    by (auto simp: upsert_mutator_def Let_def split: prod.splits intro!: kept_map)
qed

lemma duplicate_mutator_kept: "duplicate_mutator i c w prev = Inr (d, w1) \<Longrightarrow> kept prev d"
  by (auto simp: duplicate_mutator_def split: prod.splits option.splits intro!: kept_append)

lemma create_mutator_kept: "create_mutator n w prev = Inr (d, w1) \<Longrightarrow> kept prev d"
  by (auto simp: create_mutator_def split: prod.splits if_splits intro!: kept_same_prompts)

lemma rename_mutator_kept: "rename_mutator i n w prev = Inr (d, w1) \<Longrightarrow> kept prev d"
  by (auto simp: rename_mutator_def split: prod.splits if_splits intro!: kept_same_prompts)

lemma delete_mutator_kept:
  assumes "delete_mutator i w prev = Inr (d, w1)"
  shows "kept prev d"
proof -
  from assms obtain ps where r: "reassign i (prompts prev) w = (ps, w1)" and d: "prompts d = ps"
    by (auto simp: delete_mutator_def split: prod.splits if_splits)
  from reassign_kept [OF r] d show ?thesis unfolding kept_def by auto
qed

lemma validated_commit_kept:
  assumes "canonical ck (db st)" and "\<And>w d w1. mut w (db st) = Inr (d, w1) \<Longrightarrow> kept (db st) d"
  shows "kept (db st) (db (fst (withValidation (commit_call ck mut t) st w)))"
proof -
  obtain r st' w' where c: "commit ck mut t st w = (r, st', w')" by (cases "commit ck mut t st w")
  from commit_kept [OF c assms(1)] assms(2) have "kept (db st) (db st')" by blast
  with c show ?thesis by (simp add: withValidation_db commit_call_def)
qed

lemma state_after_kept:
  assumes "canonical ck (db st)"
  shows "kept (db st) (db (state_after ck op st w))"
proof (cases op)
  case (UpsertPrompt draft)
  show ?thesis
  proof (cases "upsertPrompt ck draft st w")
    case (Inl e)
    with UpsertPrompt show ?thesis by (simp add: kept_refl)
  next
    case (Inr r)
    then obtain i w1 where
      "r = (i, withValidation (commit_call ck (upsert_mutator ck draft i) ''Zapisano'') st w1)"
      by (auto simp: upsertPrompt_def split: if_splits prod.splits)
    with Inr UpsertPrompt validated_commit_kept [OF assms, of "upsert_mutator ck draft i" "''Zapisano''" w1]
    show ?thesis by (auto simp: upsert_mutator_kept split: prod.splits)
  qed
next
  case (DeletePrompt i)
  have "kept (db st) (db (fst (withValidation (commit_call ck
      (\<lambda>w prev. Inr (prev\<lparr>prompts := filter (\<lambda>p. p_id p \<noteq> i) (prompts prev)\<rparr>, w)) ''Usunieto prompt'') st w)))"
    by (rule validated_commit_kept [OF assms]) (auto simp: kept_def)
  with DeletePrompt show ?thesis by (simp add: deletePrompt_def)
next
  case (DuplicatePrompt i)
  obtain c w1 where u: "uuid w = (c, w1)" by (cases "uuid w")
  from validated_commit_kept [OF assms, of "duplicate_mutator i c" "''Zduplikowano''" w1]
  have "kept (db st) (db (fst (withValidation (commit_call ck (duplicate_mutator i c) ''Zduplikowano'') st w1)))"
    by (simp add: duplicate_mutator_kept)
  with DuplicatePrompt u show ?thesis by (simp add: duplicatePrompt_def split: prod.splits)
next
  case (CreateCategory name)
  show ?thesis
  proof (cases "js_trim name = []")
    case True
    with CreateCategory show ?thesis
      by (simp add: createCategory_def withValidation_def kept_refl Let_def)
  next
    case False
    from validated_commit_kept [OF assms, of "create_mutator (js_trim name)" "''Dodano kategorie''" w]
    have "kept (db st) (db (fst (withValidation (commit_call ck (create_mutator (js_trim name)) ''Dodano kategorie'') st w)))"
      by (simp add: create_mutator_kept)
    with CreateCategory False show ?thesis by (simp add: createCategory_def Let_def)
  qed
next
  case (RenameCategory i name)
  show ?thesis
  proof (cases "js_trim name = [] \<or> i = UNCATEGORIZED_ID")
    case True
    with RenameCategory show ?thesis
      by (auto simp: renameCategory_def withValidation_def kept_refl Let_def)
  next
    case False
    from validated_commit_kept [OF assms, of "rename_mutator i (js_trim name)" "''Zmieniono nazwe kategorii''" w]
    have "kept (db st) (db (fst (withValidation (commit_call ck (rename_mutator i (js_trim name)) ''Zmieniono nazwe kategorii'') st w)))"
      by (simp add: rename_mutator_kept)
    with RenameCategory False show ?thesis by (simp add: renameCategory_def Let_def)
  qed
next
  case (DeleteCategory i)
  show ?thesis
  proof (cases "i = UNCATEGORIZED_ID")
    case True
    with DeleteCategory show ?thesis
      by (simp add: deleteCategory_def withValidation_def kept_refl)
  next
    case False
    from validated_commit_kept [OF assms, of "delete_mutator i" "''Usunieto kategorie''" w]
    have "kept (db st) (db (fst (withValidation (commit_call ck (delete_mutator i) ''Usunieto kategorie'') st w)))"
      by (simp add: delete_mutator_kept)
    with DeleteCategory False show ?thesis by (simp add: deleteCategory_def)
  qed
qed

section \<open>The controller: copying, and the failures of validation\<close>

lemma stamped_canonical:
  assumes "canonical ck d" and "t \<noteq> []"
  shows "canonical ck
           (d\<lparr>prompts := map (\<lambda>p. if p_id p = i then p\<lparr>lastUsedAt := Str t, updatedAt := Str t\<rparr> else p)
                             (prompts d)\<rparr>)"
proof -
  let ?f = "\<lambda>p. if p_id p = i then p\<lparr>lastUsedAt := Str t, updatedAt := Str t\<rparr> else p"
  have ids: "map p_id (map ?f (prompts d)) = map p_id (prompts d)" by (induction "prompts d") auto
  have sh: "prompt_shaped ck ids (p\<lparr>lastUsedAt := Str t, updatedAt := Str t\<rparr>)"
    if "prompt_shaped ck ids p" for ids p
    using that assms(2) by (simp add: prompt_shaped_def)
  from assms have "shaped ck (d\<lparr>prompts := map ?f (prompts d)\<rparr>)"
    unfolding canonical_def shaped_def using ids sh by (auto simp del: map_map)
  with assms show ?thesis
    unfolding canonical_def by auto
qed

lemma find_stamped:
  "find (\<lambda>p. p_id p = i) (map (\<lambda>p. if p_id p = i then p\<lparr>lastUsedAt := a, updatedAt := b\<rparr> else p) ps)
     = map_option (\<lambda>p. p\<lparr>lastUsedAt := a, updatedAt := b\<rparr>) (find (\<lambda>p. p_id p = i) ps)"
  by (induction ps) auto

lemma copyPrompt_success:
  assumes "canonical ck (db st)" and "world_ok w"
    and "find (\<lambda>p. p_id p = i) (prompts (db st)) = Some prompt" and "writeText (content prompt)"
  shows "copyPrompt ck writeText i st w
           = (None,
              st\<lparr>error := None,
                 db := (db st)\<lparr>prompts :=
                          map (\<lambda>p. if p_id p = i
                                    then p\<lparr>lastUsedAt := Str (fst (nowIso w)),
                                           updatedAt := Str (fst (nowIso w))\<rparr>
                                    else p) (prompts (db st))\<rparr>,
                 backupPending := True, toast := Some ''Skopiowano''\<rparr>,
              snd (nowIso w))"
proof -
  obtain t w1 where n: "nowIso w = (t, w1)" by (cases "nowIso w")
  with assms(2) have t: "t \<noteq> []" by (auto dest: world_ok_nowIso)
  let ?d = "(db st)\<lparr>prompts := map (\<lambda>p. if p_id p = i then p\<lparr>lastUsedAt := Str t, updatedAt := Str t\<rparr> else p)
                             (prompts (db st))\<rparr>"
  from assms(1) t have "canonical ck ?d" by (rule stamped_canonical)
  then have "normalizeDb ck w1 (db_value ?d) = Inr (?d, w1)" by (rule normalizeDb_id)
  with n assms(3,4) show ?thesis
    by (simp add: copyPrompt_def commit_call_def commit_def copy_mutator_def)
qed

lemma commit_call_throw:
  "mut w (db st) = Inl e \<Longrightarrow>
   commit_call ck mut t st w
     = (None, st\<lparr>error := None, backupPending := True, toast := (if t \<noteq> [] then Some t else toast st),
                 renderError := Some e\<rparr>, w)"
  by (simp add: commit_call_def commit_def)

lemma duplicate_absent:
  "find (\<lambda>p. p_id p = i) (prompts (db st)) = None \<Longrightarrow>
   duplicatePrompt ck i st w
     = (fst (uuid w),
        st\<lparr>error := None, backupPending := True, toast := Some ''Zduplikowano'',
           renderError := Some (Error ''Prompt nie istnieje'')\<rparr>,
        snd (uuid w))"
  by (simp add: duplicatePrompt_def withValidation_def commit_call_def commit_def
      duplicate_mutator_def split: prod.splits)

lemma create_blank:
  "js_trim n = [] \<Longrightarrow>
   createCategory ck n st w = (st\<lparr>error := Some ''Nazwa kategorii jest wymagana''\<rparr>, w)"
  by (simp add: createCategory_def withValidation_def)

lemma create_taken:
  assumes "js_trim n \<noteq> []"
    and "\<exists>c \<in> set (categories (db st)). js_toLowerCase (c_name c) = js_toLowerCase (js_trim n)"
  shows "createCategory ck n st w
           = (st\<lparr>error := None, backupPending := True, toast := Some ''Dodano kategorie'',
                 renderError := Some (Error ''Kategoria o tej nazwie juz istnieje'')\<rparr>, w)"
proof -
  from assms(2) have "create_mutator (js_trim n) w (db st) = Inl (Error ''Kategoria o tej nazwie juz istnieje'')"
    by (simp add: create_mutator_def)
  from commit_call_throw [where ck = ck and mut = "create_mutator (js_trim n)" and t = "''Dodano kategorie''", OF this]
    assms(1)
  show ?thesis by (simp add: createCategory_def withValidation_def)
qed

lemma rename_blank:
  "js_trim n = [] \<Longrightarrow>
   renameCategory ck i n st w = (st\<lparr>error := Some ''Nazwa kategorii jest wymagana''\<rparr>, w)"
  by (simp add: renameCategory_def withValidation_def)

lemma rename_reserved:
  "js_trim n \<noteq> [] \<Longrightarrow>
   renameCategory ck UNCATEGORIZED_ID n st w
     = (st\<lparr>error := Some ''Nie mozna zmienic nazwy kategorii Bez kategorii''\<rparr>, w)"
  by (simp add: renameCategory_def withValidation_def)

lemma rename_throw:
  assumes "js_trim n \<noteq> []" and "i \<noteq> UNCATEGORIZED_ID"
    and "rename_mutator i (js_trim n) w (db st) = Inl (Error m)"
  shows "renameCategory ck i n st w
           = (st\<lparr>error := None, backupPending := True, toast := Some ''Zmieniono nazwe kategorii'',
                 renderError := Some (Error m)\<rparr>, w)"
proof -
  from commit_call_throw
    [where ck = ck and mut = "rename_mutator i (js_trim n)" and t = "''Zmieniono nazwe kategorii''", OF assms(3)]
    assms(1,2)
  show ?thesis by (simp add: renameCategory_def withValidation_def)
qed

lemma rename_taken:
  assumes "js_trim n \<noteq> []" and "i \<noteq> UNCATEGORIZED_ID"
    and "\<exists>c \<in> set (categories (db st)).
           c_id c \<noteq> i \<and> js_toLowerCase (c_name c) = js_toLowerCase (js_trim n)"
  shows "renameCategory ck i n st w
           = (st\<lparr>error := None, backupPending := True, toast := Some ''Zmieniono nazwe kategorii'',
                 renderError := Some (Error ''Kategoria o tej nazwie juz istnieje'')\<rparr>, w)"
  using assms(3) by (intro rename_throw assms(1,2)) (simp add: rename_mutator_def)

lemma rename_absent:
  assumes "js_trim n \<noteq> []" and "i \<noteq> UNCATEGORIZED_ID"
    and "\<not> (\<exists>c \<in> set (categories (db st)).
           c_id c \<noteq> i \<and> js_toLowerCase (c_name c) = js_toLowerCase (js_trim n))"
    and "\<not> (\<exists>c \<in> set (categories (db st)). c_id c = i)"
  shows "renameCategory ck i n st w
           = (st\<lparr>error := None, backupPending := True, toast := Some ''Zmieniono nazwe kategorii'',
                 renderError := Some (Error ''Kategoria nie istnieje'')\<rparr>, w)"
proof -
  from assms(3,4) have "rename_mutator i (js_trim n) w (db st) = Inl (Error ''Kategoria nie istnieje'')"
    unfolding rename_mutator_def by (simp only: if_False if_True not_False_eq_True)
  with assms(1,2) show ?thesis by (rule rename_throw)
qed

lemma delete_reserved:
  "deleteCategory ck UNCATEGORIZED_ID st w
     = (st\<lparr>error := Some ''Nie mozna usunac kategorii Bez kategorii''\<rparr>, w)"
  by (simp add: deleteCategory_def withValidation_def)

lemma delete_absent:
  assumes "i \<noteq> UNCATEGORIZED_ID" and "\<not> (\<exists>c \<in> set (categories (db st)). c_id c = i)"
  shows "deleteCategory ck i st w
           = (st\<lparr>error := None, backupPending := True, toast := Some ''Usunieto kategorie'',
                 renderError := Some (Error ''Kategoria nie istnieje'')\<rparr>, w)"
proof -
  from assms(2) have "delete_mutator i w (db st) = Inl (Error ''Kategoria nie istnieje'')"
    by (simp add: delete_mutator_def)
  from commit_call_throw [where ck = ck and mut = "delete_mutator i" and t = "''Usunieto kategorie''", OF this]
    assms(1)
  show ?thesis by (simp add: deleteCategory_def withValidation_def)
qed

lemma upsert_blank:
  "js_trim (d_title draft) = [] \<or> js_trim (d_categoryId draft) = [] \<or> js_trim (d_content draft) = []
     \<Longrightarrow> \<exists>m. upsertPrompt ck draft st w = Inl (Error m)"
  by (auto simp: upsertPrompt_def)

lemma upsert_blank_title:
  "js_trim (d_title draft) = [] \<Longrightarrow> upsertPrompt ck draft st w = Inl (Error ''Pole title jest wymagane'')"
  by (simp add: upsertPrompt_def)

section \<open>The sample data, evaluated\<close>

lemma js_trim_id: "s \<noteq> [] \<Longrightarrow> \<not> is_ws (hd s) \<Longrightarrow> \<not> is_ws (last s) \<Longrightarrow> js_trim s = s"
proof -
  assume a: "s \<noteq> []" "\<not> is_ws (hd s)" "\<not> is_ws (last s)"
  then have 1: "dropWhile is_ws s = s" by (simp add: dropWhile_eq_self_iff)
  from a have "dropWhile is_ws (rev s) = rev s" by (simp add: dropWhile_eq_self_iff hd_rev)
  with 1 show ?thesis by (simp add: js_trim_def)
qed

lemma world_ok_w0: "world_ok w0"
  by (simp add: world_ok_def w0_def js_trim_id is_ws_def)

lemmas norm_eval =
  normalizeDb_def categoryMapOf_def promptMapOf_def push_uncategorized_def ensure_uncategorized_def
  uncategorized_def nowIso_def uuid_def category_value_def trimmed_id_def UNCATEGORIZED_ID_def
  map_has_def map_set_def normCategory_def trimmed_or_def or_now_def prompt_id_def normPrompt_def
  trimmed_tags_def js_trim_def is_ws_def normTags_def new_Set_def set_add_def

lemma ck_base_simps: "ck_base ''A'' = ''a''" "ck_base ''b'' = ''b''"
  by (simp_all add: ck_base_def js_toLowerCase_def lower_char_def upper_chars_def lower_chars_def)

lemma norm_raw_doc: "normalizeDb ck_base w0 raw_doc = Inr (norm_doc, w0\<lparr>ticks := 6, draws := 1\<rparr>)"
  by (simp add: norm_eval raw_doc_def norm_doc_def w0_def ck_base_simps)

lemmas sample_defs =
  stamp_def reserved_def lib_p1_def work_c1_def lib_doc_def work_x9_def fresh_p1_def
  import_fresh_def merged_fresh_def work_c2_def clash_p2_def import_clash_def merged_clash_def

lemmas canonical_defs =
  canonical_def shaped_def category_shaped_def prompt_shaped_def tags_ok_def js_trim_def is_ws_def
  UNCATEGORIZED_ID_def

lemma canonical_lib_doc: "canonical ck_base lib_doc"
  by (simp add: canonical_defs sample_defs)

lemma canonical_import_fresh: "canonical ck_base import_fresh"
  by (simp add: canonical_defs sample_defs ck_base_simps)

lemma canonical_import_clash: "canonical ck_base import_clash"
  by (simp add: canonical_defs sample_defs)

lemma lower_simps:
  "js_toLowerCase ''Work'' = ''work''" "js_toLowerCase ''work'' = ''work''"
  "js_toLowerCase ''Other'' = ''other''" "js_toLowerCase ''Bez kategorii'' = ''bez kategorii''"
  by (simp_all add: js_toLowerCase_def lower_char_def upper_chars_def lower_chars_def)

lemmas merge_eval =
  mergeImported_def mergedCategories_def new_Map_def map_get_def resolveCategory_def

lemma merge_fresh: "mergeImported ck_base w0 lib_doc import_fresh = Inr (merged_fresh, w0)"
  by (simp add: merge_eval norm_eval sample_defs lower_simps ck_base_simps db_value_def
      prompt_value_def)

lemma merge_clash: "mergeImported ck_base w0 lib_doc import_clash = Inr (merged_clash, w0)"
  by (simp add: merge_eval norm_eval sample_defs lower_simps ck_base_simps db_value_def
      prompt_value_def)

lemmas state_defs = st_lib_def st_home_def sink_ok_def sink_broken_def blank_draft_def parse_fresh_def

lemma lower_home: "js_toLowerCase ''Home'' = ''home''"
  by (simp add: js_toLowerCase_def lower_char_def upper_chars_def lower_chars_def)

lemma commit_home:
  "commit ck_base (create_mutator ''Home'') ''Dodano kategorie'' st_lib w0
     = (None, st_home, snd (nowIso (snd (uuid w0))))"
  by (simp add: commit_def create_mutator_def state_defs sample_defs lower_simps lower_home
      norm_eval db_value_def prompt_value_def w0_def)

lemma trim_samples:
  "js_trim ''  '' = []" "js_trim '' work '' = ''work''" "js_trim ''Inbox'' = ''Inbox''"
  "js_trim ''WORK'' = ''WORK''" "js_trim ''Fresh'' = ''Fresh''"
  by (simp_all add: js_trim_def is_ws_def)

lemma lower_samples:
  "js_toLowerCase ''WORK'' = ''work''" "js_toLowerCase ''Fresh'' = ''fresh''"
  by (simp_all add: js_toLowerCase_def lower_char_def upper_chars_def lower_chars_def)

lemma canonical_merged_fresh: "canonical ck_base merged_fresh"
  by (simp add: canonical_defs sample_defs ck_base_simps)

lemma import_fresh_evaluated:
  "importJson ck_base parse_fresh [] st_lib w0
     = (st_lib\<lparr>error := None, db := merged_fresh, backupPending := True,
               toast := Some ''Zaimportowano dane''\<rparr>, w0)"
proof -
  have 1: "normalizeDb ck_base w0 (db_value import_fresh) = Inr (import_fresh, w0)"
    using canonical_import_fresh by (rule normalizeDb_id)
  have 2: "normalizeDb ck_base w0 (db_value merged_fresh) = Inr (merged_fresh, w0)"
    using canonical_merged_fresh by (rule normalizeDb_id)
  have 3: "db st_lib = lib_doc" by (simp add: st_lib_def)
  show ?thesis
    by (simp add: importJson_def importParsed_def parse_fresh_def withValidation_def
        commit_call_def commit_def 1 2 3 merge_fresh)
qed

lemmas bg_eval =
  savePromptFromPage_def bg_normalizeDb_def bg_normTags_def bg_normPrompt_def bg_or_now_def
  bg_defaultDb_def array_or_empty_def trimmed_string_or_def string_or_def opt_prop_def
  ensure_uncategorized_def uncategorized_def nowIso_def uuid_def category_value_def
  prompt_value_def db_value_def UNCATEGORIZED_ID_def map_has_def map_set_def js_trim_def is_ws_def
  new_Set_def set_add_def Let_def

lemma save_from_page:
  "savePromptFromPage w0 page_payload lib_doc = Inr (saved_doc, snd (uuid (snd (nowIso w0))))"
  by (simp add: bg_eval page_payload_def saved_doc_def saved_prompt_def sample_defs w0_def Let_def)

lemma bg_fixpoint: "bg_normalizeDb w (db_value saved_doc) = Inr (saved_doc, w)"
  by (simp add: bg_eval saved_doc_def saved_prompt_def sample_defs)

lemma ui_reload:
  "ck ''a'' < ck ''B'' \<Longrightarrow> normalizeDb ck w (db_value saved_doc) = Inr (reloaded_doc, w)"
  by (simp add: norm_eval db_value_def prompt_value_def saved_doc_def reloaded_doc_def
      saved_prompt_def sample_defs not_le [symmetric])

section \<open>The claims\<close>

text \<open>
  C1. Normalizing is idempotent: when the normalizer has returned a document (the clock
  giving non-empty timestamps and the generator non-blank ids), normalizing that document
  again, at any later state of the world, returns the same document, and reads neither
  the clock nor the generator.
\<close>

theorem normalizeDb_idempotent:
  assumes "world_ok w" and "normalizeDb ck w D = Inr (d, w1)"
  shows "normalizeDb ck w2 (db_value d) = Inr (d, w2)"
proof -
  from assms(2,1) have "canonical ck d" by (rule normalizeDb_canonical)
  then show ?thesis by (rule normalizeDb_id)
qed

theorem normalizeDb_idempotent_witness:
  "world_ok w0 \<and>
   normalizeDb ck_base w0 raw_doc = Inr (norm_doc, w0\<lparr>ticks := 6, draws := 1\<rparr>) \<and>
   normalizeDb ck_base (w0\<lparr>ticks := 6, draws := 1\<rparr>) (db_value norm_doc)
     = Inr (norm_doc, w0\<lparr>ticks := 6, draws := 1\<rparr>)"
  using world_ok_w0 norm_raw_doc normalizeDb_idempotent [OF world_ok_w0 norm_raw_doc] by simp

text \<open>
  C2. The claim: the normalizer is total, it repairs every raw input, \<open>null\<close> and fields of
  a wrong type included, and never throws. The normalizer of the UI does throw: on \<open>null\<close>,
  on a title that is a number, on a tag that is a number. (The worker's normalizer tests
  the types and repairs all three.)
\<close>

theorem normalizeDb_throws_on_wrong_types:
  "normalizeDb ck w Null = Inl TypeError \<and>
   normalizeDb ck w (Obj [(''prompts'', Arr [Obj [(''id'', Str ''p1''), (''title'', Num 5)]])])
     = Inl TypeError \<and>
   normalizeDb ck w (Obj [(''prompts'', Arr [Obj [(''id'', Str ''p1''), (''tags'', Arr [Num 1])]])])
     = Inl TypeError"
  by (simp add: norm_eval)

text \<open>
  C3. The claim: the worker's normalizer and the UI's return equal documents on every
  input, so that what the worker has saved for the page widget is not changed by the UI
  on the next load. The worker sorts the tags by code units, the UI by the collation of
  the locale: with any collation that puts \<open>a\<close> before \<open>B\<close>, the prompt saved for the tags
  \<open>a,B\<close> is stored with the tags \<open>B\<close>, \<open>a\<close>, which the worker's normalizer leaves and the
  UI's normalizer turns round.
\<close>

theorem worker_tag_order_differs:
  assumes "ck ''a'' < ck ''B''"
  shows "savePromptFromPage w0 page_payload lib_doc = Inr (saved_doc, snd (uuid (snd (nowIso w0)))) \<and>
         bg_normalizeDb w (db_value saved_doc) = Inr (saved_doc, w) \<and>
         normalizeDb ck w (db_value saved_doc) = Inr (reloaded_doc, w) \<and>
         reloaded_doc \<noteq> saved_doc"
proof -
  have "reloaded_doc \<noteq> saved_doc"
    by (simp add: reloaded_doc_def saved_doc_def saved_prompt_def lib_doc_def)
  with save_from_page bg_fixpoint ui_reload [OF assms] show ?thesis by simp
qed

theorem worker_tag_order_differs_witness:
  "ck_base ''a'' < ck_base ''B'' \<and>
   savePromptFromPage w0 page_payload lib_doc = Inr (saved_doc, snd (uuid (snd (nowIso w0)))) \<and>
   bg_normalizeDb w0 (db_value saved_doc) = Inr (saved_doc, w0) \<and>
   normalizeDb ck_base w0 (db_value saved_doc) = Inr (reloaded_doc, w0) \<and>
   reloaded_doc \<noteq> saved_doc"
proof -
  have h: "ck_base ''a'' < ck_base ''B''"
    by (simp add: ck_base_def js_toLowerCase_def lower_char_def upper_chars_def lower_chars_def)
  from worker_tag_order_differs [OF h, of w0] h show ?thesis by simp
qed

text \<open>
  C4. The reserved category: a document returned by the normalizer has exactly one category
  whose id is \<open>uncategorized\<close>; renaming or deleting the reserved category leaves the
  document as it is and sets the error of the rule broken.
\<close>

theorem reserved_category_invariance:
  "(normalizeDb ck w D = Inr (d, w') \<longrightarrow>
      length (filter (\<lambda>c. c_id c = UNCATEGORIZED_ID) (categories d)) = 1) \<and>
   db (fst (renameCategory ck UNCATEGORIZED_ID name st w)) = db st \<and>
   error (fst (renameCategory ck UNCATEGORIZED_ID name st w))
     = Some (if js_trim name = [] then ''Nazwa kategorii jest wymagana''
             else ''Nie mozna zmienic nazwy kategorii Bez kategorii'') \<and>
   db (fst (deleteCategory ck UNCATEGORIZED_ID st w)) = db st \<and>
   error (fst (deleteCategory ck UNCATEGORIZED_ID st w))
     = Some ''Nie mozna usunac kategorii Bez kategorii''"
proof -
  have "length (filter (\<lambda>c. c_id c = UNCATEGORIZED_ID) (categories d)) = 1"
    if "normalizeDb ck w D = Inr (d, w')"
  proof -
    from that have "shaped ck d" by (rule normalizeDb_shaped)
    then have "distinct (map c_id (categories d))" "UNCATEGORIZED_ID \<in> set (map c_id (categories d))"
      by (simp_all add: shaped_def)
    then have "length (filter (\<lambda>i. i = UNCATEGORIZED_ID) (map c_id (categories d))) = 1"
      by (rule length_filter_eq_one)
    then show ?thesis
      by (simp add: filter_map comp_def)
  qed
  then show ?thesis
    by (simp add: renameCategory_def deleteCategory_def withValidation_def Let_def)
qed

theorem reserved_category_invariance_witness:
  "normalizeDb ck_base w0 raw_doc = Inr (norm_doc, w0\<lparr>ticks := 6, draws := 1\<rparr>) \<and>
   length (filter (\<lambda>c. c_id c = UNCATEGORIZED_ID) (categories norm_doc)) = 1 \<and>
   db (fst (renameCategory ck_base UNCATEGORIZED_ID ''Inbox'' st_lib w0)) = db st_lib \<and>
   error (fst (renameCategory ck_base UNCATEGORIZED_ID ''Inbox'' st_lib w0))
     = Some ''Nie mozna zmienic nazwy kategorii Bez kategorii'' \<and>
   db (fst (deleteCategory ck_base UNCATEGORIZED_ID st_lib w0)) = db st_lib \<and>
   error (fst (deleteCategory ck_base UNCATEGORIZED_ID st_lib w0))
     = Some ''Nie mozna usunac kategorii Bez kategorii''"
proof -
  have t: "js_trim ''Inbox'' \<noteq> []" by (simp add: js_trim_def is_ws_def)
  note r = reserved_category_invariance
    [where ck = ck_base and w = w0 and D = raw_doc and d = norm_doc
       and w' = "w0\<lparr>ticks := 6, draws := 1\<rparr>" and name = "''Inbox''" and st = st_lib]
  from r [THEN conjunct1, THEN mp, OF norm_raw_doc] r [THEN conjunct2] t norm_raw_doc
  show ?thesis by simp
qed

text \<open>
  C5. Referential integrity: in every document the normalizer returns, the \<open>categoryId\<close> of
  every prompt is the id of a category of that document.
\<close>

theorem referential_integrity:
  assumes "normalizeDb ck w D = Inr (d, w')"
  shows "\<forall>p \<in> set (prompts d). \<exists>c \<in> set (categories d). c_id c = categoryId p"
proof
  fix p assume p: "p \<in> set (prompts d)"
  from assms have "shaped ck d" by (rule normalizeDb_shaped)
  with p have "categoryId p \<in> set (map c_id (categories d))"
    by (simp add: shaped_def prompt_shaped_def)
  then show "\<exists>c \<in> set (categories d). c_id c = categoryId p" by auto
qed

theorem referential_integrity_witness:
  "normalizeDb ck_base w0 raw_doc = Inr (norm_doc, w0\<lparr>ticks := 6, draws := 1\<rparr>) \<and>
   list_all (\<lambda>p. \<exists>c \<in> set (categories norm_doc). c_id c = categoryId p) (prompts norm_doc)"
  using norm_raw_doc referential_integrity [OF norm_raw_doc] by (simp add: list_all_iff)

text \<open>
  C6. The claim: every validation failure of \<open>upsertPrompt\<close>, \<open>duplicatePrompt\<close>,
  \<open>createCategory\<close>, \<open>renameCategory\<close> and \<open>deleteCategory\<close> is caught at the controller and
  becomes the last error, none reaching the caller or being fatal. What the code does: a
  failure thrown before \<open>commit\<close> inside \<open>withValidation\<close> (a blank category name, the
  reserved category) is caught, the error is set and nothing else changes. A failure
  thrown by the updater given to \<open>setDb\<close> (an absent prompt, a category name taken, an
  absent category) is caught by nothing: the call returns with the error cleared, the
  backup flag set and the toast of success shown, and the render fails with the
  exception, the document being as it was. A blank title, category id or content makes
  \<open>upsertPrompt\<close> throw to its caller.
\<close>

theorem validation_failures:
  "(find (\<lambda>p. p_id p = i1) (prompts (db st)) = None \<longrightarrow>
      duplicatePrompt ck i1 st w
        = (fst (uuid w),
           st\<lparr>error := None, backupPending := True, toast := Some ''Zduplikowano'',
             renderError := Some (Error ''Prompt nie istnieje'')\<rparr>,
           snd (uuid w))) \<and>
   (js_trim n2 = [] \<longrightarrow>
      createCategory ck n2 st w = (st\<lparr>error := Some ''Nazwa kategorii jest wymagana''\<rparr>, w)) \<and>
   (js_trim n3 \<noteq> [] \<and>
    (\<exists>c \<in> set (categories (db st)). js_toLowerCase (c_name c) = js_toLowerCase (js_trim n3)) \<longrightarrow>
      createCategory ck n3 st w
        = (st\<lparr>error := None, backupPending := True, toast := Some ''Dodano kategorie'',
             renderError := Some (Error ''Kategoria o tej nazwie juz istnieje'')\<rparr>, w)) \<and>
   (js_trim n4 = [] \<longrightarrow>
      renameCategory ck i4 n4 st w = (st\<lparr>error := Some ''Nazwa kategorii jest wymagana''\<rparr>, w)) \<and>
   (js_trim n5 \<noteq> [] \<longrightarrow>
      renameCategory ck UNCATEGORIZED_ID n5 st w
        = (st\<lparr>error := Some ''Nie mozna zmienic nazwy kategorii Bez kategorii''\<rparr>, w)) \<and>
   (js_trim n6 \<noteq> [] \<and> i6 \<noteq> UNCATEGORIZED_ID \<and>
    (\<exists>c \<in> set (categories (db st)).
        c_id c \<noteq> i6 \<and> js_toLowerCase (c_name c) = js_toLowerCase (js_trim n6)) \<longrightarrow>
      renameCategory ck i6 n6 st w
        = (st\<lparr>error := None, backupPending := True, toast := Some ''Zmieniono nazwe kategorii'',
             renderError := Some (Error ''Kategoria o tej nazwie juz istnieje'')\<rparr>, w)) \<and>
   (js_trim n7 \<noteq> [] \<and> i7 \<noteq> UNCATEGORIZED_ID \<and>
    \<not> (\<exists>c \<in> set (categories (db st)).
        c_id c \<noteq> i7 \<and> js_toLowerCase (c_name c) = js_toLowerCase (js_trim n7)) \<and>
    \<not> (\<exists>c \<in> set (categories (db st)). c_id c = i7) \<longrightarrow>
      renameCategory ck i7 n7 st w
        = (st\<lparr>error := None, backupPending := True, toast := Some ''Zmieniono nazwe kategorii'',
             renderError := Some (Error ''Kategoria nie istnieje'')\<rparr>, w)) \<and>
   deleteCategory ck UNCATEGORIZED_ID st w
     = (st\<lparr>error := Some ''Nie mozna usunac kategorii Bez kategorii''\<rparr>, w) \<and>
   (i9 \<noteq> UNCATEGORIZED_ID \<and> \<not> (\<exists>c \<in> set (categories (db st)). c_id c = i9) \<longrightarrow>
      deleteCategory ck i9 st w
        = (st\<lparr>error := None, backupPending := True, toast := Some ''Usunieto kategorie'',
             renderError := Some (Error ''Kategoria nie istnieje'')\<rparr>, w)) \<and>
   (js_trim (d_title draft) = [] \<longrightarrow>
      upsertPrompt ck draft st w = Inl (Error ''Pole title jest wymagane'')) \<and>
   (js_trim (d_title draft) = [] \<or> js_trim (d_categoryId draft) = [] \<or> js_trim (d_content draft) = [] \<longrightarrow>
      (\<exists>m. upsertPrompt ck draft st w = Inl (Error m)))"
  using duplicate_absent [of i1 st ck w] create_blank [of n2 ck st w] create_taken [of n3 st ck w]
    rename_blank [of n4 ck i4 st w] rename_reserved [of n5 ck st w] rename_taken [of n6 i6 st ck w]
    rename_absent [of n7 i7 st ck w] delete_reserved [of ck st w] delete_absent [of i9 st ck w]
    upsert_blank [of draft ck st w] upsert_blank_title [of draft ck st w]
  by (intro conjI impI) (assumption | (elim conjE, assumption) | blast)+

theorem validation_failures_witness:
  "find (\<lambda>p. p_id p = ''nope'') (prompts (db st_lib)) = None \<and>
   duplicatePrompt ck_base ''nope'' st_lib w0
     = (fst (uuid w0),
        st_lib\<lparr>error := None, backupPending := True, toast := Some ''Zduplikowano'',
             renderError := Some (Error ''Prompt nie istnieje'')\<rparr>,
        snd (uuid w0)) \<and>
   js_trim ''  '' = [] \<and>
   createCategory ck_base ''  '' st_lib w0 = (st_lib\<lparr>error := Some ''Nazwa kategorii jest wymagana''\<rparr>, w0) \<and>
   js_trim '' work '' \<noteq> [] \<and>
   (\<exists>c \<in> set (categories (db st_lib)). js_toLowerCase (c_name c) = js_toLowerCase (js_trim '' work '')) \<and>
   createCategory ck_base '' work '' st_lib w0
     = (st_lib\<lparr>error := None, backupPending := True, toast := Some ''Dodano kategorie'',
             renderError := Some (Error ''Kategoria o tej nazwie juz istnieje'')\<rparr>, w0) \<and>
   renameCategory ck_base ''c1'' ''  '' st_lib w0
     = (st_lib\<lparr>error := Some ''Nazwa kategorii jest wymagana''\<rparr>, w0) \<and>
   js_trim ''Inbox'' \<noteq> [] \<and>
   renameCategory ck_base UNCATEGORIZED_ID ''Inbox'' st_lib w0
     = (st_lib\<lparr>error := Some ''Nie mozna zmienic nazwy kategorii Bez kategorii''\<rparr>, w0) \<and>
   js_trim ''WORK'' \<noteq> [] \<and> ''c2'' \<noteq> UNCATEGORIZED_ID \<and>
   (\<exists>c \<in> set (categories (db st_lib)).
       c_id c \<noteq> ''c2'' \<and> js_toLowerCase (c_name c) = js_toLowerCase (js_trim ''WORK'')) \<and>
   renameCategory ck_base ''c2'' ''WORK'' st_lib w0
     = (st_lib\<lparr>error := None, backupPending := True, toast := Some ''Zmieniono nazwe kategorii'',
             renderError := Some (Error ''Kategoria o tej nazwie juz istnieje'')\<rparr>, w0) \<and>
   js_trim ''Fresh'' \<noteq> [] \<and> ''zz'' \<noteq> UNCATEGORIZED_ID \<and>
   \<not> (\<exists>c \<in> set (categories (db st_lib)).
       c_id c \<noteq> ''zz'' \<and> js_toLowerCase (c_name c) = js_toLowerCase (js_trim ''Fresh'')) \<and>
   \<not> (\<exists>c \<in> set (categories (db st_lib)). c_id c = ''zz'') \<and>
   renameCategory ck_base ''zz'' ''Fresh'' st_lib w0
     = (st_lib\<lparr>error := None, backupPending := True, toast := Some ''Zmieniono nazwe kategorii'',
             renderError := Some (Error ''Kategoria nie istnieje'')\<rparr>, w0) \<and>
   deleteCategory ck_base UNCATEGORIZED_ID st_lib w0
     = (st_lib\<lparr>error := Some ''Nie mozna usunac kategorii Bez kategorii''\<rparr>, w0) \<and>
   deleteCategory ck_base ''zz'' st_lib w0
     = (st_lib\<lparr>error := None, backupPending := True, toast := Some ''Usunieto kategorie'',
             renderError := Some (Error ''Kategoria nie istnieje'')\<rparr>, w0) \<and>
   js_trim (d_title blank_draft) = [] \<and>
   upsertPrompt ck_base blank_draft st_lib w0 = Inl (Error ''Pole title jest wymagane'') \<and>
   (\<exists>m. upsertPrompt ck_base blank_draft st_lib w0 = Inl (Error m))"
proof -
  note t = validation_failures
    [where ck = ck_base and st = st_lib and w = w0 and ?i1.0 = "''nope''" and ?n2.0 = "''  ''"
       and ?n3.0 = "'' work ''" and ?i4.0 = "''c1''" and ?n4.0 = "''  ''" and ?n5.0 = "''Inbox''"
       and ?i6.0 = "''c2''" and ?n6.0 = "''WORK''" and ?i7.0 = "''zz''" and ?n7.0 = "''Fresh''"
       and ?i9.0 = "''zz''" and draft = blank_draft]
  have h1: "find (\<lambda>p. p_id p = ''nope'') (prompts (db st_lib)) = None"
    by (simp add: state_defs sample_defs)
  have h3: "js_trim '' work '' \<noteq> []"
    "\<exists>c \<in> set (categories (db st_lib)). js_toLowerCase (c_name c) = js_toLowerCase (js_trim '' work '')"
    by (simp_all add: state_defs sample_defs trim_samples lower_simps)
  have h5: "js_trim ''Inbox'' \<noteq> []" by (simp add: trim_samples)
  have h6: "js_trim ''WORK'' \<noteq> []" "''c2'' \<noteq> UNCATEGORIZED_ID"
    "\<exists>c \<in> set (categories (db st_lib)).
       c_id c \<noteq> ''c2'' \<and> js_toLowerCase (c_name c) = js_toLowerCase (js_trim ''WORK'')"
    by (simp_all add: state_defs sample_defs trim_samples lower_simps lower_samples UNCATEGORIZED_ID_def)
  have h7: "js_trim ''Fresh'' \<noteq> []" "''zz'' \<noteq> UNCATEGORIZED_ID"
    "\<not> (\<exists>c \<in> set (categories (db st_lib)).
       c_id c \<noteq> ''zz'' \<and> js_toLowerCase (c_name c) = js_toLowerCase (js_trim ''Fresh''))"
    "\<not> (\<exists>c \<in> set (categories (db st_lib)). c_id c = ''zz'')"
    by (simp_all add: state_defs sample_defs trim_samples lower_simps lower_samples UNCATEGORIZED_ID_def)
  have h10: "js_trim (d_title blank_draft) = []" by (simp add: blank_draft_def trim_samples)
  note c1 = t [THEN conjunct1, THEN mp, OF h1]
  note t2 = t [THEN conjunct2]
  note c2 = t2 [THEN conjunct1, THEN mp, OF trim_samples(1)]
  note t3 = t2 [THEN conjunct2]
  note c3 = t3 [THEN conjunct1, THEN mp, OF conjI [OF h3]]
  note t4 = t3 [THEN conjunct2]
  note c4 = t4 [THEN conjunct1, THEN mp, OF trim_samples(1)]
  note t5 = t4 [THEN conjunct2]
  note c5 = t5 [THEN conjunct1, THEN mp, OF h5]
  note t6 = t5 [THEN conjunct2]
  note c6 = t6 [THEN conjunct1, THEN mp, OF conjI [OF h6(1) conjI [OF h6(2,3)]]]
  note t7 = t6 [THEN conjunct2]
  note c7 = t7 [THEN conjunct1, THEN mp, OF conjI [OF h7(1) conjI [OF h7(2) conjI [OF h7(3,4)]]]]
  note t8 = t7 [THEN conjunct2]
  note c8 = t8 [THEN conjunct1]
  note t9 = t8 [THEN conjunct2]
  note c9 = t9 [THEN conjunct1, THEN mp, OF conjI [OF h7(2,4)]]
  note t10 = t9 [THEN conjunct2]
  note c10 = t10 [THEN conjunct1, THEN mp, OF h10]
  note c11 = t10 [THEN conjunct2, THEN mp, OF disjI1 [OF h10]]
  show ?thesis
    by (intro conjI h1 c1 trim_samples(1) c2 h3 c3 c4 h5 c5 h6 c6 h7 c7 c8 c9 h10 c10 c11)
qed

text \<open>
  C7. The merge replaces: for canonical documents, a prompt of the incoming document whose
  id is the id of a prompt of the current one is, in the merged document, the prompt found
  under that id, with its category id taken through the id map and its tags normalized;
  no other prompt of the merged document has that id.
\<close>

theorem merge_replace_law:
  assumes "canonical ck current" and "canonical ck incoming"
    and "p \<in> set (prompts incoming)"
    and "original \<in> set (prompts current)" and "p_id original = p_id p"
  shows "\<exists>d. mergeImported ck w current incoming = Inr (d, w) \<and>
           find (\<lambda>q. p_id q = p_id p) (prompts d)
             = Some (p\<lparr>categoryId := resolveCategory (categoryIdMapOf current incoming w) (categoryId p),
                        tags := normTags ck (tags p)\<rparr>) \<and>
           (\<forall>q \<in> set (prompts d). p_id q = p_id p \<longrightarrow>
              q = p\<lparr>categoryId := resolveCategory (categoryIdMapOf current incoming w) (categoryId p),
                     tags := normTags ck (tags p)\<rparr>)"
proof -
  from assms(1,2) obtain cats im nm pm where
    mc: "mergedCategories current incoming w = ((cats, im, nm), w)"
    and mp: "mergePrompts ck im (prompts incoming) (map (\<lambda>p. (p_id p, p)) (prompts current)) w = (pm, w)"
    and pinv: "pmap_inv ck (set (map c_id cats)) pm"
    and mi: "mergeImported ck w current incoming
               = Inr (\<lparr>version = 1, categories = cats, prompts = map snd pm\<rparr>, w)"
    by (rule merged_canonical)
  let ?p' = "p\<lparr>categoryId := resolveCategory im (categoryId p), tags := normTags ck (tags p)\<rparr>"
  from mc have im: "categoryIdMapOf current incoming w = im" by (simp add: categoryIdMapOf_def)
  from assms(2) have ne: "\<forall>p \<in> set (prompts incoming). p_id p \<noteq> []"
    and di: "distinct (map p_id (prompts incoming))"
    by (simp_all add: canonical_def shaped_def)
  from mp ne di assms(3) have m: "map_of pm (p_id p) = Some ?p'" by (rule mergePrompts_map_of)
  from pinv have key: "\<forall>(k, q) \<in> set pm. p_id q = k" and dk: "distinct (map fst pm)"
    by (auto simp: pmap_inv_def)
  from key m have f: "find (\<lambda>q. p_id q = p_id p) (map snd pm) = Some ?p'"
    by (simp add: find_map_of)
  have "q = ?p'" if "q \<in> set (map snd pm)" "p_id q = p_id p" for q
  proof -
    from dk key that(1) have "map_of pm (p_id q) = Some q" by (rule map_of_keyed)
    with that(2) m show ?thesis by simp
  qed
  with mi f im show ?thesis by simp
qed

theorem merge_replace_law_witness:
  "canonical ck_base lib_doc \<and> canonical ck_base import_fresh \<and>
   fresh_p1 \<in> set (prompts import_fresh) \<and> lib_p1 \<in> set (prompts lib_doc) \<and>
   p_id lib_p1 = p_id fresh_p1 \<and>
   mergeImported ck_base w0 lib_doc import_fresh = Inr (merged_fresh, w0) \<and>
   find (\<lambda>q. p_id q = p_id fresh_p1) (prompts merged_fresh) = Some (fresh_p1\<lparr>categoryId := ''c1''\<rparr>)"
proof -
  have m: "fresh_p1 \<in> set (prompts import_fresh)" "lib_p1 \<in> set (prompts lib_doc)"
    "p_id lib_p1 = p_id fresh_p1"
    by (simp_all add: sample_defs)
  from merge_replace_law [OF canonical_lib_doc canonical_import_fresh m, of w0]
  have "find (\<lambda>q. p_id q = p_id fresh_p1) (prompts merged_fresh)
          = Some (fresh_p1\<lparr>categoryId := resolveCategory (categoryIdMapOf lib_doc import_fresh w0)
                                           (categoryId fresh_p1),
                            tags := normTags ck_base (tags fresh_p1)\<rparr>)"
    by (simp add: merge_fresh)
  moreover have "find (\<lambda>q. p_id q = p_id fresh_p1) (prompts merged_fresh)
          = Some (fresh_p1\<lparr>categoryId := ''c1''\<rparr>)"
    by (simp add: sample_defs)
  ultimately show ?thesis
    using canonical_lib_doc canonical_import_fresh m merge_fresh by simp
qed

text \<open>
  C8 as stated fails when the id of the imported category \<open>work\<close>, different from the id of
  \<open>Work\<close>, is the id of another category of the current document: ids are matched before
  names, and the imported prompt stays with that id.
\<close>

theorem merge_category_name_fallback_counterexample:
  "canonical ck_base lib_doc \<and> canonical ck_base import_clash \<and>
   work_c1 \<in> set (categories lib_doc) \<and> c_name work_c1 = ''Work'' \<and> c_id work_c1 = ''c1'' \<and>
   work_c2 \<in> set (categories import_clash) \<and> c_name work_c2 = ''work'' \<and> c_id work_c2 \<noteq> ''c1'' \<and>
   clash_p2 \<in> set (prompts import_clash) \<and> categoryId clash_p2 = c_id work_c2 \<and>
   mergeImported ck_base w0 lib_doc import_clash = Inr (merged_clash, w0) \<and>
   find (\<lambda>q. p_id q = p_id clash_p2) (prompts merged_clash) = Some clash_p2 \<and>
   categoryId clash_p2 \<noteq> ''c1''"
  using canonical_lib_doc canonical_import_clash merge_clash by (simp add: sample_defs)

text \<open>
  C8, as amended. When the current document has one category with a given name up to
  case, and the imported document has a category of that name, up to case, whose id is the
  id of no category of the current document, the merge does not add the imported category,
  and every imported prompt that referred to it refers to the current category in the merged
  document.
\<close>

theorem merge_category_name_fallback:
  assumes "canonical ck current" and "canonical ck imported"
    and "k \<in> set (categories current)" and "c \<in> set (categories imported)"
    and "js_toLowerCase (c_name c) = js_toLowerCase (c_name k)"
    and "c_id c \<notin> set (map c_id (categories current))"
    and "\<forall>k' \<in> set (categories current).
           js_toLowerCase (c_name k') = js_toLowerCase (c_name k) \<longrightarrow> c_id k' = c_id k"
  shows "\<exists>d. mergeImported ck w current imported = Inr (d, w) \<and>
           c_id c \<notin> set (map c_id (categories d)) \<and>
           (\<forall>p \<in> set (prompts imported). categoryId p = c_id c \<longrightarrow>
              find (\<lambda>q. p_id q = p_id p) (prompts d)
                = Some (p\<lparr>categoryId := c_id k, tags := normTags ck (tags p)\<rparr>))"
proof -
  from assms(1,2) obtain cats im nm pm where
    mc: "mergedCategories current imported w = ((cats, im, nm), w)"
    and mp: "mergePrompts ck im (prompts imported) (map (\<lambda>p. (p_id p, p)) (prompts current)) w = (pm, w)"
    and pinv: "pmap_inv ck (set (map c_id cats)) pm"
    and mi: "mergeImported ck w current imported
               = Inr (\<lparr>version = 1, categories = cats, prompts = map snd pm\<rparr>, w)"
    by (rule merged_canonical)
  let ?cats0 = "categories current"
  let ?im0 = "map (\<lambda>c. (c_id c, c_id c)) ?cats0"
  let ?entries = "map (\<lambda>c. (js_toLowerCase (c_name c), c_id c)) ?cats0"
  let ?key = "js_toLowerCase (c_name c)"
  from assms(1) have scur: "shaped ck current" by (simp add: canonical_def)
  from assms(2) have simp': "shaped ck imported" by (simp add: canonical_def)
  have im0: "new_Map ?im0 = ?im0"
    using scur by (intro new_Map_distinct) (simp add: shaped_def comp_def)
  from mc obtain im' where
    l: "mergeCategories (categories imported) (?cats0, ?im0, new_Map ?entries) w = ((cats, im', nm), w)"
    and im: "im = map_set UNCATEGORIZED_ID UNCATEGORIZED_ID im'"
    by (auto simp: mergedCategories_def im0 split: prod.splits)
  from assms(3,5) have "?key \<in> fst ` set ?entries" by force
  then have "map_of (new_Map ?entries) ?key \<noteq> None"
    by (simp add: map_of_eq_None_iff new_Map_keys)
  then obtain v where v: "map_of (new_Map ?entries) ?key = Some v" by blast
  then have "(?key, v) \<in> set ?entries" by (rule new_Map_map_of)
  with assms(5,7) have "v = c_id k" by auto
  with v have hit: "map_of (new_Map ?entries) ?key = Some (c_id k)" by simp
  from scur assms(3) have kne: "c_id k \<noteq> []" by (auto simp: shaped_def category_shaped_def)
  from assms(6) have nohas: "\<not> map_has ?im0 (c_id c)" by (simp add: map_has_def comp_def)
  from simp' have d: "distinct (map c_id (categories imported))"
    and ne: "\<forall>c \<in> set (categories imported). c_id c \<noteq> []"
    by (auto simp: shaped_def category_shaped_def)
  from mergeCategories_name_hit [OF l assms(4) d ne nohas hit kne assms(6)]
  have r: "map_of im' (c_id c) = Some (c_id k)" and new: "c_id c \<notin> set (map c_id cats)" by simp_all
  from scur assms(6) have "c_id c \<noteq> UNCATEGORIZED_ID" by (auto simp: shaped_def)
  with r im have res: "resolveCategory im (c_id c) = c_id k"
    by (simp add: resolveCategory_def map_get_def)
  from assms(2) have pne: "\<forall>p \<in> set (prompts imported). p_id p \<noteq> []"
    and di: "distinct (map p_id (prompts imported))"
    by (simp_all add: canonical_def shaped_def)
  from pinv have key: "\<forall>(k, q) \<in> set pm. p_id q = k" by (auto simp: pmap_inv_def)
  have "find (\<lambda>q. p_id q = p_id p) (map snd pm)
          = Some (p\<lparr>categoryId := c_id k, tags := normTags ck (tags p)\<rparr>)"
    if "p \<in> set (prompts imported)" "categoryId p = c_id c" for p
  proof -
    from mp pne di that(1) have "map_of pm (p_id p)
        = Some (p\<lparr>categoryId := resolveCategory im (categoryId p), tags := normTags ck (tags p)\<rparr>)"
      by (rule mergePrompts_map_of)
    with key that(2) res show ?thesis by (simp add: find_map_of)
  qed
  with mi new show ?thesis by simp
qed

theorem merge_category_name_fallback_witness:
  "canonical ck_base lib_doc \<and> canonical ck_base import_fresh \<and>
   work_c1 \<in> set (categories lib_doc) \<and> work_x9 \<in> set (categories import_fresh) \<and>
   js_toLowerCase (c_name work_x9) = js_toLowerCase (c_name work_c1) \<and>
   c_id work_x9 \<notin> set (map c_id (categories lib_doc)) \<and>
   list_all (\<lambda>k'. js_toLowerCase (c_name k') = js_toLowerCase (c_name work_c1) \<longrightarrow> c_id k' = c_id work_c1)
     (categories lib_doc) \<and>
   mergeImported ck_base w0 lib_doc import_fresh = Inr (merged_fresh, w0) \<and>
   c_id work_x9 \<notin> set (map c_id (categories merged_fresh)) \<and>
   find (\<lambda>q. p_id q = p_id fresh_p1) (prompts merged_fresh)
     = Some (fresh_p1\<lparr>categoryId := c_id work_c1, tags := normTags ck_base (tags fresh_p1)\<rparr>)"
proof -
  have h: "work_c1 \<in> set (categories lib_doc)" "work_x9 \<in> set (categories import_fresh)"
    "js_toLowerCase (c_name work_x9) = js_toLowerCase (c_name work_c1)"
    "c_id work_x9 \<notin> set (map c_id (categories lib_doc))"
    by (simp_all add: sample_defs lower_simps)
  have u: "\<forall>k' \<in> set (categories lib_doc).
      js_toLowerCase (c_name k') = js_toLowerCase (c_name work_c1) \<longrightarrow> c_id k' = c_id work_c1"
    by (simp add: sample_defs lower_simps)
  have p: "fresh_p1 \<in> set (prompts import_fresh)" "categoryId fresh_p1 = c_id work_x9"
    by (simp_all add: sample_defs)
  from merge_category_name_fallback [OF canonical_lib_doc canonical_import_fresh h u, of w0]
  obtain d where d: "mergeImported ck_base w0 lib_doc import_fresh = Inr (d, w0)"
    and r1: "c_id work_x9 \<notin> set (map c_id (categories d))"
    and r2: "\<forall>p \<in> set (prompts import_fresh). categoryId p = c_id work_x9 \<longrightarrow>
              find (\<lambda>q. p_id q = p_id p) (prompts d)
                = Some (p\<lparr>categoryId := c_id work_c1, tags := normTags ck_base (tags p)\<rparr>)"
    by blast
  from d have e: "d = merged_fresh" by (simp add: merge_fresh)
  from r2 p have r3: "find (\<lambda>q. p_id q = p_id fresh_p1) (prompts d)
     = Some (fresh_p1\<lparr>categoryId := c_id work_c1, tags := normTags ck_base (tags fresh_p1)\<rparr>)"
    by blast
  have l: "list_all (\<lambda>k'. js_toLowerCase (c_name k') = js_toLowerCase (c_name work_c1) \<longrightarrow> c_id k' = c_id work_c1)
     (categories lib_doc)"
    unfolding list_all_iff by (rule u)
  show ?thesis
    by (intro conjI canonical_lib_doc canonical_import_fresh h l merge_fresh
        r1 [unfolded e] r3 [unfolded e])
qed

text \<open>
  C9 as stated fails in its last part: \<open>importJson\<close> puts the \<open>lastUsedAt\<close> of an imported
  prompt in the place of a \<open>null\<close>.
\<close>

theorem import_sets_lastUsedAt_counterexample:
  "find (\<lambda>p. p_id p = ''p1'') (prompts (db st_lib)) = Some lib_p1 \<and> lastUsedAt lib_p1 = Null \<and>
   importJson ck_base parse_fresh [] st_lib w0
     = (st_lib\<lparr>error := None, db := merged_fresh, backupPending := True,
               toast := Some ''Zaimportowano dane''\<rparr>, w0) \<and>
   find (\<lambda>p. p_id p = ''p1'') (prompts merged_fresh) = Some (fresh_p1\<lparr>categoryId := ''c1''\<rparr>) \<and>
   lastUsedAt (fresh_p1\<lparr>categoryId := ''c1''\<rparr>) = Str ''2024-04-01T08:00:00.000Z'' \<and>
   \<not> kept (db st_lib) merged_fresh"
  using import_fresh_evaluated by (simp add: state_defs sample_defs kept_def)

text \<open>
  C9, as amended. \<open>copyPrompt\<close>: when no prompt has the id, or the clipboard refuses the
  text, the error is set and nothing else of the state changes; when the clipboard takes
  the text (the document canonical, the clock sound), the prompt of that id gets the
  current time as \<open>lastUsedAt\<close> and \<open>updatedAt\<close> and keeps every other field. After any
  operation other than \<open>copyPrompt\<close> and \<open>importJson\<close>, a \<open>lastUsedAt\<close> that is not \<open>null\<close> is
  the one the prompt of that id had before.
\<close>

theorem copyPrompt_contract:
  "(find (\<lambda>p. p_id p = i) (prompts (db st)) = None \<longrightarrow>
      copyPrompt ck writeText i st w = (None, st\<lparr>error := Some ''Prompt nie istnieje''\<rparr>, w)) \<and>
   (find (\<lambda>p. p_id p = i2) (prompts (db st2)) = Some prompt2 \<and> \<not> writeText2 (content prompt2) \<longrightarrow>
      copyPrompt ck writeText2 i2 st2 w2
        = (None, st2\<lparr>error := Some ''Nie udalo sie skopiowac do schowka''\<rparr>, w2)) \<and>
   (canonical ck (db st3) \<and> world_ok w3 \<and>
    find (\<lambda>p. p_id p = i3) (prompts (db st3)) = Some prompt3 \<and> writeText3 (content prompt3) \<longrightarrow>
      fst (copyPrompt ck writeText3 i3 st3 w3) = None \<and>
      find (\<lambda>p. p_id p = i3) (prompts (db (fst (snd (copyPrompt ck writeText3 i3 st3 w3)))))
        = Some (prompt3\<lparr>lastUsedAt := Str (fst (nowIso w3)), updatedAt := Str (fst (nowIso w3))\<rparr>)) \<and>
   (canonical ck (db st4) \<longrightarrow> kept (db st4) (db (state_after ck op st4 w4)))"
proof (intro conjI impI)
  assume "find (\<lambda>p. p_id p = i) (prompts (db st)) = None"
  then show "copyPrompt ck writeText i st w = (None, st\<lparr>error := Some ''Prompt nie istnieje''\<rparr>, w)"
    by (simp add: copyPrompt_def)
next
  assume "find (\<lambda>p. p_id p = i2) (prompts (db st2)) = Some prompt2 \<and> \<not> writeText2 (content prompt2)"
  then show "copyPrompt ck writeText2 i2 st2 w2
        = (None, st2\<lparr>error := Some ''Nie udalo sie skopiowac do schowka''\<rparr>, w2)"
    by (simp add: copyPrompt_def)
next
  assume a: "canonical ck (db st3) \<and> world_ok w3 \<and>
    find (\<lambda>p. p_id p = i3) (prompts (db st3)) = Some prompt3 \<and> writeText3 (content prompt3)"
  from a have c: "copyPrompt ck writeText3 i3 st3 w3
           = (None,
              st3\<lparr>error := None,
                 db := (db st3)\<lparr>prompts :=
                          map (\<lambda>p. if p_id p = i3
                                    then p\<lparr>lastUsedAt := Str (fst (nowIso w3)),
                                           updatedAt := Str (fst (nowIso w3))\<rparr>
                                    else p) (prompts (db st3))\<rparr>,
                 backupPending := True, toast := Some ''Skopiowano''\<rparr>,
              snd (nowIso w3))"
    by (auto intro!: copyPrompt_success)
  show "fst (copyPrompt ck writeText3 i3 st3 w3) = None" by (simp add: c)
  from a show "find (\<lambda>p. p_id p = i3) (prompts (db (fst (snd (copyPrompt ck writeText3 i3 st3 w3)))))
        = Some (prompt3\<lparr>lastUsedAt := Str (fst (nowIso w3)), updatedAt := Str (fst (nowIso w3))\<rparr>)"
    by (simp add: c find_stamped)
next
  assume "canonical ck (db st4)"
  then show "kept (db st4) (db (state_after ck op st4 w4))" by (rule state_after_kept)
qed

theorem copyPrompt_contract_witness:
  "find (\<lambda>p. p_id p = ''nope'') (prompts (db st_lib)) = None \<and>
   copyPrompt ck_base sink_ok ''nope'' st_lib w0 = (None, st_lib\<lparr>error := Some ''Prompt nie istnieje''\<rparr>, w0) \<and>
   find (\<lambda>p. p_id p = ''p1'') (prompts (db st_lib)) = Some lib_p1 \<and> \<not> sink_broken (content lib_p1) \<and>
   copyPrompt ck_base sink_broken ''p1'' st_lib w0
     = (None, st_lib\<lparr>error := Some ''Nie udalo sie skopiowac do schowka''\<rparr>, w0) \<and>
   canonical ck_base (db st_lib) \<and> world_ok w0 \<and> sink_ok (content lib_p1) \<and>
   fst (copyPrompt ck_base sink_ok ''p1'' st_lib w0) = None \<and>
   find (\<lambda>p. p_id p = ''p1'') (prompts (db (fst (snd (copyPrompt ck_base sink_ok ''p1'' st_lib w0)))))
     = Some (lib_p1\<lparr>lastUsedAt := Str (fst (nowIso w0)), updatedAt := Str (fst (nowIso w0))\<rparr>) \<and>
   canonical ck_base (db (st_lib\<lparr>db := merged_fresh\<rparr>)) \<and>
   kept (db (st_lib\<lparr>db := merged_fresh\<rparr>))
     (db (state_after ck_base (DuplicatePrompt ''p1'') (st_lib\<lparr>db := merged_fresh\<rparr>) w0))"
proof -
  have h1: "find (\<lambda>p. p_id p = ''nope'') (prompts (db st_lib)) = None"
    by (simp add: state_defs sample_defs)
  have f: "find (\<lambda>p. p_id p = ''p1'') (prompts (db st_lib)) = Some lib_p1"
    by (simp add: state_defs sample_defs)
  have b: "\<not> sink_broken (content lib_p1)" by (simp add: sink_broken_def)
  have ok: "sink_ok (content lib_p1)" by (simp add: sink_ok_def)
  have c: "canonical ck_base (db st_lib)" using canonical_lib_doc by (simp add: st_lib_def)
  have c4: "canonical ck_base (db (st_lib\<lparr>db := merged_fresh\<rparr>))"
    using canonical_merged_fresh by simp
  note t1 = copyPrompt_contract
    [where ck = ck_base and i = "''nope''" and st = st_lib and w = w0 and writeText = sink_ok,
      THEN conjunct1, THEN mp, OF h1]
  note t2 = copyPrompt_contract
    [where ck = ck_base and ?i2.0 = "''p1''" and ?st2.0 = st_lib and ?w2.0 = w0
       and ?writeText2.0 = sink_broken and ?prompt2.0 = lib_p1,
      THEN conjunct2, THEN conjunct1, THEN mp, OF conjI [OF f b]]
  note t3 = copyPrompt_contract
    [where ck = ck_base and ?i3.0 = "''p1''" and ?st3.0 = st_lib and ?w3.0 = w0
       and ?writeText3.0 = sink_ok and ?prompt3.0 = lib_p1,
      THEN conjunct2, THEN conjunct2, THEN conjunct1, THEN mp,
      OF conjI [OF c conjI [OF world_ok_w0 conjI [OF f ok]]]]
  note t4 = copyPrompt_contract
    [where ck = ck_base and ?st4.0 = "st_lib\<lparr>db := merged_fresh\<rparr>" and ?w4.0 = w0
       and op = "DuplicatePrompt ''p1''",
      THEN conjunct2, THEN conjunct2, THEN conjunct2, THEN mp, OF c4]
  show ?thesis
    by (intro conjI h1 t1 f b t2 c world_ok_w0 ok t3 [THEN conjunct1] t3 [THEN conjunct2] c4 t4)
qed

text \<open>
  C10. No text is stored with white space around it: in a document returned by the
  normalizer every title, content and category name is its own trim and every tag is
  non-empty and trimmed; a commit either puts such a document in the state or, when
  the mutator throws, leaves the document as it was.
\<close>

theorem trimmed_text_invariant:
  "(normalizeDb ck w D = Inr (d, w') \<longrightarrow>
      (\<forall>p \<in> set (prompts d). js_trim (title p) = title p \<and> js_trim (content p) = content p \<and>
         (\<forall>t \<in> set (tags p). t \<noteq> [] \<and> js_trim t = t)) \<and>
      (\<forall>c \<in> set (categories d). js_trim (c_name c) = c_name c)) \<and>
   (commit ck mut toastMessage st w2 = (r, st', w2') \<longrightarrow>
      (if r = None
       then (\<forall>p \<in> set (prompts (db st')). js_trim (title p) = title p \<and> js_trim (content p) = content p \<and>
              (\<forall>t \<in> set (tags p). t \<noteq> [] \<and> js_trim t = t)) \<and>
            (\<forall>c \<in> set (categories (db st')). js_trim (c_name c) = c_name c)
       else db st' = db st))"
proof (rule conjI)
  show "normalizeDb ck w D = Inr (d, w') \<longrightarrow>
      (\<forall>p \<in> set (prompts d). js_trim (title p) = title p \<and> js_trim (content p) = content p \<and>
         (\<forall>t \<in> set (tags p). t \<noteq> [] \<and> js_trim t = t)) \<and>
      (\<forall>c \<in> set (categories d). js_trim (c_name c) = c_name c)"
  proof (rule impI)
    assume "normalizeDb ck w D = Inr (d, w')"
    then have "shaped ck d" by (rule normalizeDb_shaped)
    then show "(\<forall>p \<in> set (prompts d). js_trim (title p) = title p \<and> js_trim (content p) = content p \<and>
         (\<forall>t \<in> set (tags p). t \<noteq> [] \<and> js_trim t = t)) \<and>
      (\<forall>c \<in> set (categories d). js_trim (c_name c) = c_name c)" by (rule shaped_trimmed)
  qed
next
  show "commit ck mut toastMessage st w2 = (r, st', w2') \<longrightarrow>
      (if r = None
       then (\<forall>p \<in> set (prompts (db st')). js_trim (title p) = title p \<and> js_trim (content p) = content p \<and>
              (\<forall>t \<in> set (tags p). t \<noteq> [] \<and> js_trim t = t)) \<and>
            (\<forall>c \<in> set (categories (db st')). js_trim (c_name c) = c_name c)
       else db st' = db st)"
  proof (rule impI)
    assume c: "commit ck mut toastMessage st w2 = (r, st', w2')"
    show "if r = None
       then (\<forall>p \<in> set (prompts (db st')). js_trim (title p) = title p \<and> js_trim (content p) = content p \<and>
              (\<forall>t \<in> set (tags p). t \<noteq> [] \<and> js_trim t = t)) \<and>
            (\<forall>c \<in> set (categories (db st')). js_trim (c_name c) = c_name c)
       else db st' = db st"
    proof (cases "r = None")
      case True
      with commit_cases [OF c] obtain d w1 where "normalizeDb ck w1 (db_value d) = Inr (db st', w2')"
        by auto
      then have "shaped ck (db st')" by (rule normalizeDb_shaped)
      with True shaped_trimmed [of ck "db st'"] show ?thesis by simp
    next
      case False
      with commit_cases [OF c] show ?thesis by auto
    qed
  qed
qed

theorem trimmed_text_invariant_witness:
  "normalizeDb ck_base w0 raw_doc = Inr (norm_doc, w0\<lparr>ticks := 6, draws := 1\<rparr>) \<and>
   list_all (\<lambda>p. js_trim (title p) = title p \<and> js_trim (content p) = content p \<and>
                 (\<forall>t \<in> set (tags p). t \<noteq> [] \<and> js_trim t = t)) (prompts norm_doc) \<and>
   list_all (\<lambda>c. js_trim (c_name c) = c_name c) (categories norm_doc) \<and>
   commit ck_base (create_mutator ''Home'') ''Dodano kategorie'' st_lib w0
     = (None, st_home, snd (nowIso (snd (uuid w0)))) \<and>
   list_all (\<lambda>p. js_trim (title p) = title p \<and> js_trim (content p) = content p \<and>
                 (\<forall>t \<in> set (tags p). t \<noteq> [] \<and> js_trim t = t)) (prompts (db st_home)) \<and>
   list_all (\<lambda>c. js_trim (c_name c) = c_name c) (categories (db st_home))"
proof -
  note a = trimmed_text_invariant
    [where ck = ck_base and w = w0 and D = raw_doc and d = norm_doc
       and w' = "w0\<lparr>ticks := 6, draws := 1\<rparr>", THEN conjunct1, THEN mp, OF norm_raw_doc]
  note b = trimmed_text_invariant
    [where ck = ck_base and ?w2.0 = w0 and mut = "create_mutator ''Home''"
       and toastMessage = "''Dodano kategorie''" and st = st_lib and r = None and st' = st_home
       and ?w2' = "snd (nowIso (snd (uuid w0)))", THEN conjunct2, THEN mp, OF commit_home]
  show ?thesis
    unfolding list_all_iff
    by (intro conjI norm_raw_doc commit_home a [THEN conjunct1] a [THEN conjunct2]
        b [simplified, THEN conjunct1] b [simplified, THEN conjunct2])
qed

end
